theory Spec2Isabelle
  imports Complex_Main "HOL-Library.Monad_Syntax"
begin

section \<open>The snake arena: geometry helpers and the simulation tick\<close>

text \<open>
  The development embeds \<^verbatim>\<open>utils/geometry.ts\<close>, \<^verbatim>\<open>types.ts\<close> and the functions
  \<^verbatim>\<open>createSnake\<close>, \<^verbatim>\<open>createFood\<close>, \<^verbatim>\<open>update\<close> and \<^verbatim>\<open>killSnake\<close> of
  \<^verbatim>\<open>components/GameCanvas.tsx\<close>.

  Modelling conventions.
  \<^item> A JavaScript \<^verbatim>\<open>number\<close> is a real number: arithmetic is exact, there is no rounding,
    no NaN and no signed zero.
  \<^item> Snake objects are shared by reference between \<^verbatim>\<open>playerRef\<close>, \<^verbatim>\<open>botsRef\<close>, the local
    array \<^verbatim>\<open>allSnakes\<close> and the closures of pending timers. They live in an explicit store
    \<open>heap\<close> from references (natural numbers) to records; \<^verbatim>\<open>===\<close> on snakes is equality
    of references.
  \<^item> \<^verbatim>\<open>Math.random()\<close> reads the next element of a stream \<open>rnd\<close> carried by the world.
  \<^item> The callbacks \<^verbatim>\<open>onGameOver\<close>, \<^verbatim>\<open>setScore\<close>, \<^verbatim>\<open>setLeaderboard\<close> and
    \<^verbatim>\<open>setTimeout\<close> append to logs carried by the world.
  \<^item> A tick returns \<open>None\<close> when it does not complete: reading \<^verbatim>\<open>.x\<close> of an
    \<^verbatim>\<open>undefined\<close> head (empty body) throws a TypeError, and the length-maintaining loop
    does not terminate for a negative target length.
\<close>

subsection \<open>types.ts\<close>

record point =
  px :: real
  py :: real

record snake =
  sid :: string
  name :: string
  body :: "point list"
  angle :: real
  slength :: real
  color :: string
  isBoosting :: bool
  score :: real
  isDead :: bool
  isBot :: bool
  skinIndex :: int

text \<open>
  A food object is a point with further fields, and the source passes it where a point
  is expected. Its \<^verbatim>\<open>id\<close> and \<^verbatim>\<open>color\<close> strings are printed from one random draw each;
  the model keeps the draw (\<open>idSeed\<close>) and the hue (\<open>hue\<close>, the draw times 360).
\<close>

record food = point +
  idSeed :: real
  fvalue :: real
  hue :: real
  radius :: real

record particle = point +
  pid :: string
  vx :: real
  vy :: real
  life :: real
  pcolor :: string

definition WORLD_SIZE :: real where [simp]: "WORLD_SIZE = 4000"
definition INITIAL_LENGTH :: nat where [simp]: "INITIAL_LENGTH = 10"
definition BASE_SPEED :: real where [simp]: "BASE_SPEED = 5"
definition BOOST_SPEED :: real where [simp]: "BOOST_SPEED = 10"
definition TURN_SPEED :: real where [simp]: "TURN_SPEED = 0.12"


subsection \<open>utils/geometry.ts\<close>

definition getDistance :: "'a point_scheme \<Rightarrow> 'b point_scheme \<Rightarrow> real" where
  "getDistance p1 p2 = sqrt ((px p2 - px p1) ^ 2 + (py p2 - py p1) ^ 2)"

text \<open>\<^verbatim>\<open>Math.atan2(y, x)\<close> on real numbers.\<close>

definition atan2 :: "real \<Rightarrow> real \<Rightarrow> real" where
  "atan2 y x =
     (if 0 < x then arctan (y / x)
      else if x < 0 then (if 0 \<le> y then arctan (y / x) + pi else arctan (y / x) - pi)
      else if 0 < y then pi / 2
      else if y < 0 then - (pi / 2)
      else 0)"

definition getAngle :: "'a point_scheme \<Rightarrow> 'b point_scheme \<Rightarrow> real" where
  "getAngle p1 p2 = atan2 (py p2 - py p1) (px p2 - px p1)"

definition movePoint :: "'a point_scheme \<Rightarrow> real \<Rightarrow> real \<Rightarrow> point" where
  "movePoint p ang distance =
     \<lparr>px = px p + cos ang * distance, py = py p + sin ang * distance\<rparr>"

text \<open>
  The remainder operator \<^verbatim>\<open>%\<close> of JavaScript truncates the quotient towards zero, so the
  result has the sign of the dividend. (The divisor is \<open>2 * pi\<close> wherever the source uses
  it, never zero.)
\<close>

definition js_rem :: "real \<Rightarrow> real \<Rightarrow> real" where
  "js_rem x m = x - m * of_int (if 0 \<le> x / m then \<lfloor>x / m\<rfloor> else \<lceil>x / m\<rceil>)"

definition normalizeAngle :: "real \<Rightarrow> real" where
  "normalizeAngle ang =
     (let a = js_rem ang (2 * pi) in if a < 0 then a + 2 * pi else a)"

definition getShortestAngleDiff :: "real \<Rightarrow> real \<Rightarrow> real" where
  "getShortestAngleDiff from to =
     (let diff = js_rem (to - from + pi) (2 * pi) - pi
      in if diff < - pi then diff + 2 * pi else diff)"

definition checkCircleCollision ::
    "'a point_scheme \<Rightarrow> real \<Rightarrow> 'b point_scheme \<Rightarrow> real \<Rightarrow> bool" where
  "checkCircleCollision p1 r1 p2 r2 = (let dist = getDistance p1 p2 in dist < r1 + r2)"

subsection \<open>The world of GameCanvas.tsx\<close>

record world =
  heap :: "nat \<Rightarrow> snake"
  nextRef :: nat
  playerRef :: "nat option"
  botsRef :: "nat list"
  foodRef :: "food list"
  particlesRef :: "particle list"
  cameraRef :: point
  scoreRef :: real
  rnd :: "nat \<Rightarrow> real"
  rix :: nat
  timers :: "nat list"
  gameOverLog :: "real list"
  setScoreLog :: "real list"
  leaderboardLog :: "(string \<times> int) list list"

record input =
  mouseX :: real
  mouseY :: real
  mouseDown :: bool
  innerWidth :: real
  innerHeight :: real

text \<open>One call of \<^verbatim>\<open>Math.random()\<close>.\<close>

definition random :: "world \<Rightarrow> real \<times> world" where
  "random w = (rnd w (rix w), w\<lparr>rix := Suc (rix w)\<rparr>)"

text \<open>In-place mutation of the snake object behind reference \<open>a\<close>.\<close>

definition modify :: "nat \<Rightarrow> (snake \<Rightarrow> snake) \<Rightarrow> world \<Rightarrow> world" where
  "modify a f w = w\<lparr>heap := (heap w)(a := f (heap w a))\<rparr>"

text \<open>\<^verbatim>\<open>snake.body[0]\<close>: \<open>None\<close> is \<^verbatim>\<open>undefined\<close>.\<close>

definition body0 :: "snake \<Rightarrow> point option" where
  "body0 s = (case body s of [] \<Rightarrow> None | h # _ \<Rightarrow> Some h)"


text \<open>
  \<^verbatim>\<open>createFood(x?, y?, value = 10)\<close>. The object literal is evaluated field by field:
  the id draw, the position draws (only for a missing coordinate), the colour draw and
  the radius draw (only for a value of at most 20).
\<close>

definition createFood :: "real option \<Rightarrow> real option \<Rightarrow> real \<Rightarrow> world \<Rightarrow> food \<times> world" where
  "createFood xo yo v w =
     (let (r1, w1) = random w;
          (x, w2) = (case xo of Some x \<Rightarrow> (x, w1)
                     | None \<Rightarrow> (let (r, w') = random w1
                                in (r * WORLD_SIZE - WORLD_SIZE / 2, w')));
          (y, w3) = (case yo of Some y \<Rightarrow> (y, w2)
                     | None \<Rightarrow> (let (r, w') = random w2
                                in (r * WORLD_SIZE - WORLD_SIZE / 2, w')));
          (r4, w4) = random w3;
          (rad, w5) = (if v > 20 then (8, w4)
                       else (let (r, w') = random w4 in (4 + r * 2, w')))
      in (\<lparr>px = x, py = y, idSeed = r1, fvalue = v, hue = r4 * 360, radius = rad\<rparr>, w5))"

definition pushFood :: "food \<times> world \<Rightarrow> world" where
  "pushFood fw = (case fw of (f, w) \<Rightarrow> w\<lparr>foodRef := foodRef w @ [f]\<rparr>)"

subsection \<open>killSnake and the respawn timer\<close>

text \<open>The callback of \<^verbatim>\<open>snake.body.forEach\<close> in \<^verbatim>\<open>killSnake\<close>, at segment index \<open>i\<close>.\<close>

fun bodyToFood :: "point list \<Rightarrow> nat \<Rightarrow> world \<Rightarrow> world" where
  "bodyToFood [] i w = w"
| "bodyToFood (seg # segs) i w =
     bodyToFood segs (Suc i)
       (if i mod 3 = 0 then pushFood (createFood (Some (px seg)) (Some (py seg)) 20 w)
        else w)"

text \<open>
  \<^verbatim>\<open>setTimeout\<close> appends the dead snake's reference to \<open>timers\<close>; the callback itself
  is \<open>respawnTimer\<close> below.
\<close>

definition killSnake :: "nat \<Rightarrow> world \<Rightarrow> world" where
  "killSnake a w =
     (let w1 = modify a (\<lambda>s. s\<lparr>isDead := True\<rparr>) w;
          w2 = bodyToFood (body (heap w1 a)) 0 w1
      in if isBot (heap w2 a) then w2\<lparr>timers := timers w2 @ [a]\<rparr>
         else w2\<lparr>gameOverLog := gameOverLog w2 @ [scoreRef w2]\<rparr>)"

text \<open>\<^verbatim>\<open>Array.prototype.indexOf\<close>, with \<open>None\<close> for \<^verbatim>\<open>-1\<close>.\<close>

fun indexOf :: "nat \<Rightarrow> nat list \<Rightarrow> nat option" where
  "indexOf a [] = None"
| "indexOf a (b # bs) =
     (if a = b then Some 0 else map_option Suc (indexOf a bs))"


subsection \<open>update: steering\<close>

definition steerPlayer :: "input \<Rightarrow> nat \<Rightarrow> world \<Rightarrow> world" where
  "steerPlayer inp p w =
     (let player = heap w p;
          centerX = innerWidth inp / 2;
          centerY = innerHeight inp / 2;
          targetAngle = getAngle \<lparr>px = centerX, py = centerY\<rparr>
                                 \<lparr>px = mouseX inp, py = mouseY inp\<rparr>;
          diff = getShortestAngleDiff (angle player) targetAngle;
          w1 = modify p (\<lambda>s. s\<lparr>angle := angle s + sgn diff * min \<bar>diff\<bar> TURN_SPEED\<rparr>) w
      in modify p (\<lambda>s. s\<lparr>isBoosting := mouseDown inp \<and> slength s > 15\<rparr>) w1)"

text \<open>
  \<^verbatim>\<open>forEach\<close> over an array of references that the callbacks do not change; an exception
  in a callback ends the tick.
\<close>

fun forEachM :: "('a \<Rightarrow> world \<Rightarrow> world option) \<Rightarrow> 'a list \<Rightarrow> world \<Rightarrow> world option" where
  "forEachM f [] w = Some w"
| "forEachM f (a # as) w = (case f a w of None \<Rightarrow> None | Some w' \<Rightarrow> forEachM f as w')"

text \<open>
  The callback of stage 2 (bot steering), in the three parts the source's comments name.
  Random wandering: with probability 0.05 the heading is jittered.
\<close>

definition wander :: "nat \<Rightarrow> world \<Rightarrow> world" where
  "wander a w =
     (let (r1, w1) = random w
      in if r1 < 0.05
         then (let (r2, w2) = random w1
               in modify a (\<lambda>s. s\<lparr>angle := angle s + (r2 - 0.5) * 1.5\<rparr>) w2)
         else w1)"

text \<open>Avoid borders; \<open>h\<close> is \<^verbatim>\<open>bot.body[0]\<close>.\<close>

definition avoidBorders :: "nat \<Rightarrow> point \<Rightarrow> world \<Rightarrow> world" where
  "avoidBorders a h w =
     (let w1 = (if \<bar>px h\<bar> > WORLD_SIZE / 2 - 200
                then modify a (\<lambda>s. s\<lparr>angle := (if px h > 0 then pi else 0)\<rparr>) w
                else w)
      in if \<bar>py h\<bar> > WORLD_SIZE / 2 - 200
         then modify a (\<lambda>s. s\<lparr>angle := (if py h > 0 then - pi / 2 else pi / 2)\<rparr>) w1
         else w1)"

text \<open>Random boost. \<^verbatim>\<open>&&\<close> draws its right operand only when the left one holds.\<close>

definition randomBoost :: "nat \<Rightarrow> world \<Rightarrow> world" where
  "randomBoost a w =
     (let (b, w1) = (if slength (heap w a) > 20
                     then (let (r, w') = random w in (r < 0.01, w'))
                     else (False, w));
          w2 = modify a (\<lambda>s. s\<lparr>isBoosting := b\<rparr>) w1
      in if isBoosting (heap w2 a)
         then (let (r, w3) = random w2
               in if r < 0.1 then modify a (\<lambda>s. s\<lparr>isBoosting := False\<rparr>) w3 else w3)
         else w2)"

definition updateBot :: "nat \<Rightarrow> world \<Rightarrow> world option" where
  "updateBot a w =
     (if isDead (heap w a) then Some w
      else
        let w1 = wander a w
        in case body0 (heap w1 a) of
             None \<Rightarrow> None
           | Some h \<Rightarrow> Some (randomBoost a (avoidBorders a h w1)))"

subsection \<open>update: motion\<close>

text \<open>
  \<^verbatim>\<open>while (snake.body.length > Math.floor(snake.length)) snake.body.pop()\<close>, with
  \<open>n\<close> the floor of the target length. \<^verbatim>\<open>pop\<close> leaves an empty array empty, so the
  loop runs forever for a negative \<open>n\<close>.
\<close>

partial_function (option) maintain :: "int \<Rightarrow> point list \<Rightarrow> point list option" where
  "maintain n b = (if int (length b) > n then maintain n (butlast b) else Some b)"

text \<open>The cost of boosting: the target length shrinks and, at random, a small food is shed at the tail.\<close>

definition boostCost :: "nat \<Rightarrow> world \<Rightarrow> world" where
  "boostCost a w =
     (let w1 = modify a (\<lambda>s. s\<lparr>slength := slength s - 0.1\<rparr>) w;
          (r, w2) = random w1
      in if r < 0.3
         then (let tail = last (body (heap w2 a));
                   (r1, w3) = random w2;
                   (r2, w4) = random w3
               in pushFood (createFood (Some (px tail + (r1 - 0.5) * 20))
                                       (Some (py tail + (r2 - 0.5) * 20)) 5 w4))
         else w2)"

definition outOfBounds :: "point \<Rightarrow> bool" where
  "outOfBounds p \<longleftrightarrow> \<bar>px p\<bar> > WORLD_SIZE / 2 \<or> \<bar>py p\<bar> > WORLD_SIZE / 2"

definition speedOf :: "snake \<Rightarrow> real" where
  "speedOf s = (if isBoosting s then BOOST_SPEED else BASE_SPEED)"

definition moveSnake :: "nat \<Rightarrow> world \<Rightarrow> world option" where
  "moveSnake a w =
     (let s = heap w a in
      if isDead s then Some w
      else
        let speed = speedOf s in
        case body0 s of
          None \<Rightarrow> None
        | Some head \<Rightarrow>
            let newHead = movePoint head (angle s) speed in
            if outOfBounds newHead then Some (killSnake a w)
            else
              let w1 = modify a (\<lambda>s. s\<lparr>body := newHead # body s\<rparr>) w;
                  w2 = (if isBoosting (heap w1 a) \<and> slength (heap w1 a) > real INITIAL_LENGTH
                        then boostCost a w1 else w1)
              in case maintain \<lfloor>slength (heap w2 a)\<rfloor> (body (heap w2 a)) of
                   None \<Rightarrow> None
                 | Some b \<Rightarrow> Some (modify a (\<lambda>s. s\<lparr>body := b\<rparr>) w2))"

subsection \<open>update: consumption\<close>

text \<open>
  The \<^verbatim>\<open>for\<close> loop over the food array, from the last index down to 0; \<open>eatLoop\<close> at
  \<open>Suc i\<close> runs the iteration with index \<open>i\<close>. The head and the pickup radius were read
  before the loop. \<open>p\<close> is the player's reference. The loop starts below the length of
  the array and a splice at \<open>i\<close> moves only the elements above \<open>i\<close>, so every read
  \<open>foodRef w ! i\<close> is in range.
\<close>

fun eatLoop :: "nat \<Rightarrow> nat \<Rightarrow> point option \<Rightarrow> real \<Rightarrow> nat \<Rightarrow> world \<Rightarrow> world option" where
  "eatLoop p a head headRadius 0 w = Some w"
| "eatLoop p a head headRadius (Suc i) w =
     (case head of
        None \<Rightarrow> None
      | Some h \<Rightarrow>
          let f = foodRef w ! i in
          if checkCircleCollision h headRadius f (radius f)
          then
            let w1 = modify a (\<lambda>s. s\<lparr>slength := slength s + fvalue f / 10\<rparr>) w;
                w2 = modify a (\<lambda>s. s\<lparr>score := score s + fvalue f\<rparr>) w1;
                w3 = (if a = p
                      then (let v = real_of_int \<lfloor>score (heap w2 a)\<rfloor>
                            in w2\<lparr>scoreRef := v, setScoreLog := setScoreLog w2 @ [v]\<rparr>)
                      else w2)
            in eatLoop p a head headRadius i
                 (w3\<lparr>foodRef := take i (foodRef w3) @ drop (Suc i) (foodRef w3)\<rparr>)
          else eatLoop p a head headRadius i w)"

definition headRadiusOf :: "snake \<Rightarrow> real" where
  "headRadiusOf s = 15 + min 10 (slength s / 50)"

definition respawnFood :: "world \<Rightarrow> world" where
  "respawnFood w =
     (if length (foodRef w) < 500
      then (let (r, w1) = random w
            in if r < 0.5 then pushFood (createFood None None 10 w1) else w1)
      else w)"

definition eatSnake :: "nat \<Rightarrow> nat \<Rightarrow> world \<Rightarrow> world option" where
  "eatSnake p a w =
     (let s = heap w a in
      if isDead s then Some w
      else
        let head = body0 s;
            headRadius = headRadiusOf s
        in case eatLoop p a head headRadius (length (foodRef w)) w of
             None \<Rightarrow> None
           | Some w1 \<Rightarrow> Some (respawnFood w1))"

subsection \<open>update: snake against snake\<close>

text \<open>
  The \<^verbatim>\<open>for\<close> loop over every other segment of \<open>bodyB\<close>, from index \<open>i\<close>: \<open>Some True\<close>
  when a segment is closer than 20 to the head, \<open>Some False\<close> when the loop runs out.
\<close>

function segLoop :: "point option \<Rightarrow> point list \<Rightarrow> nat \<Rightarrow> bool option" where
  "segLoop headA bodyB i =
     (if i < length bodyB
      then (case headA of
              None \<Rightarrow> None
            | Some h \<Rightarrow>
                let seg = bodyB ! i;
                    dist = getDistance h seg
                in if dist < 20 then Some True else segLoop headA bodyB (i + 2))
      else Some False)"
  by pat_completeness auto
termination
  by (relation "measure (\<lambda>(h, b, i). length b - i)") auto

declare segLoop.simps [simp del]

text \<open>
  The callback of the inner \<^verbatim>\<open>forEach\<close>, for the pair \<open>(a, b)\<close>. Its \<^verbatim>\<open>return\<close> after
  \<^verbatim>\<open>killSnake(snakeA)\<close> leaves this callback only: the inner \<^verbatim>\<open>forEach\<close> goes on with
  the next \<open>b\<close>.
\<close>

definition checkPair :: "nat \<Rightarrow> point option \<Rightarrow> nat \<Rightarrow> world \<Rightarrow> world option" where
  "checkPair a headA b w =
     (if isDead (heap w b) then Some w
      else
        let startIndex = (if a = b then 10 else 0)
        in case segLoop headA (body (heap w b)) startIndex of
             None \<Rightarrow> None
           | Some hit \<Rightarrow> Some (if hit then killSnake a w else w))"

definition checkSnake :: "nat list \<Rightarrow> nat \<Rightarrow> world \<Rightarrow> world option" where
  "checkSnake allSnakes a w =
     (if isDead (heap w a) then Some w
      else
        let headA = body0 (heap w a)
        in forEachM (checkPair a headA) allSnakes w)"

definition lethalStage :: "nat list \<Rightarrow> world \<Rightarrow> world option" where
  "lethalStage allSnakes w = forEachM (checkSnake allSnakes) allSnakes w"

subsection \<open>update: particles, camera, leaderboard\<close>

text \<open>
  \<^verbatim>\<open>forEach\<close> visits the indices below the initial length that are still in the array;
  the callback may splice the current element out.
\<close>

definition particleStep :: "particle list \<Rightarrow> nat \<Rightarrow> particle list" where
  "particleStep ps i =
     (if i < length ps
      then
        let p = ps ! i;
            p1 = p\<lparr>px := px p + vx p\<rparr>;
            p2 = p1\<lparr>py := py p1 + vy p1\<rparr>;
            p3 = p2\<lparr>life := life p2 - 0.02\<rparr>;
            ps' = ps[i := p3]
        in if life p3 \<le> 0 then take i ps' @ drop (Suc i) ps' else ps'
      else ps)"

definition updateParticles :: "particle list \<Rightarrow> particle list" where
  "updateParticles ps = foldl particleStep ps [0..<length ps]"

definition lerp :: "real \<Rightarrow> real \<Rightarrow> real \<Rightarrow> real" where
  "lerp a b t = a + (b - a) * t"

definition updateCamera :: "nat \<Rightarrow> world \<Rightarrow> world option" where
  "updateCamera p w =
     (if \<not> isDead (heap w p)
      then (case body0 (heap w p) of
              None \<Rightarrow> None
            | Some h \<Rightarrow>
                let w1 = w\<lparr>cameraRef := (cameraRef w)\<lparr>px := lerp (px (cameraRef w)) (px h) 0.1\<rparr>\<rparr>
                in Some (w1\<lparr>cameraRef := (cameraRef w1)\<lparr>py := lerp (py (cameraRef w1)) (py h) 0.1\<rparr>\<rparr>))
      else Some w)"

definition publishLeaderboard :: "nat list \<Rightarrow> world \<Rightarrow> world" where
  "publishLeaderboard allSnakes w =
     (let (r, w1) = random w
      in if r < 0.05
         then
           let leaders = map (\<lambda>s. (name s, \<lfloor>score s\<rfloor>))
                           (take 5 (sort_key (\<lambda>s. - score s)
                              (filter (\<lambda>s. \<not> isDead s) (map (heap w1) allSnakes))))
           in w1\<lparr>leaderboardLog := leaderboardLog w1 @ [leaders]\<rparr>
         else w1)"

subsection \<open>update\<close>

text \<open>Stages 1 and 2: the world in which motion integration starts.\<close>

definition steerStage :: "input \<Rightarrow> nat \<Rightarrow> world \<Rightarrow> world option" where
  "steerStage inp p w =
     (let w1 = steerPlayer inp p w in forEachM updateBot (botsRef w1) w1)"

definition afterSteering :: "input \<Rightarrow> nat \<Rightarrow> world \<Rightarrow> world option" where
  "afterSteering inp p w2 =
     do {
       let allSnakes = p # botsRef w2;
       w3 \<leftarrow> forEachM moveSnake allSnakes w2;
       w4 \<leftarrow> forEachM (eatSnake p) allSnakes w3;
       w5 \<leftarrow> lethalStage allSnakes w4;
       let w6 = w5\<lparr>particlesRef := updateParticles (particlesRef w5)\<rparr>;
       w7 \<leftarrow> updateCamera p w6;
       Some (publishLeaderboard allSnakes w7)
     }"

definition update :: "input \<Rightarrow> world \<Rightarrow> world option" where
  "update inp w =
     (case playerRef w of
        None \<Rightarrow> Some w
      | Some p \<Rightarrow>
          if isDead (heap w p) then Some w
          else do {
            w2 \<leftarrow> steerStage inp p w;
            afterSteering inp p w2
          })"

subsection \<open>Indices that are multiples of three\<close>


section \<open>Relations between the worlds before and after a step\<close>

text \<open>The body of a snake has at most as many segments as the floor of its target length.\<close>

definition lenInv :: "snake \<Rightarrow> bool" where
  "lenInv s \<longleftrightarrow> int (length (body s)) \<le> \<lfloor>slength s\<rfloor>"

text \<open>Every consumable in the world carries a positive value.\<close>

definition foodPositive :: "world \<Rightarrow> bool" where
  "foodPositive w \<longleftrightarrow> (\<forall>f \<in> set (foodRef w). 0 < fvalue f)"

text \<open>From \<open>w\<close> to \<open>w'\<close>, the object of every snake that is dead in \<open>w\<close> is unchanged.\<close>

definition deadFrozen :: "world \<Rightarrow> world \<Rightarrow> bool" where
  "deadFrozen w w' \<longleftrightarrow> (\<forall>b. isDead (heap w b) \<longrightarrow> heap w' b = heap w b)"

text \<open>
  From \<open>w\<close> to \<open>w'\<close>, started with positive food values: food values stay positive, no score
  decreases and \<open>lenInv\<close> is kept by every snake.
\<close>

definition grows :: "world \<Rightarrow> world \<Rightarrow> bool" where
  "grows w w' \<longleftrightarrow>
     (foodPositive w \<longrightarrow>
        foodPositive w' \<and>
        (\<forall>b. score (heap w b) \<le> score (heap w' b)
              \<and> (lenInv (heap w b) \<longrightarrow> lenInv (heap w' b))))"

text \<open>From \<open>w\<close> to \<open>w'\<close>, at most the snake behind \<open>a\<close> changed, and it was at most marked dead.\<close>

definition killsOnly :: "nat \<Rightarrow> world \<Rightarrow> world \<Rightarrow> bool" where
  "killsOnly a w w' \<longleftrightarrow>
     (\<forall>b. b \<noteq> a \<longrightarrow> heap w' b = heap w b)
     \<and> (heap w' a = heap w a \<or> heap w' a = (heap w a)\<lparr>isDead := True\<rparr>)
     \<and> botsRef w' = botsRef w \<and> grows w w'"

text \<open>
  A world is sound for the snakes \<open>all\<close> when its food values are positive and every
  living snake of \<open>all\<close> has a head and a target length of at least 1.
\<close>

definition sound :: "nat list \<Rightarrow> world \<Rightarrow> bool" where
  "sound all w \<longleftrightarrow>
     foodPositive w
     \<and> (\<forall>a \<in> set all. \<not> isDead (heap w a) \<longrightarrow> body (heap w a) \<noteq> [] \<and> 1 \<le> slength (heap w a))"

text \<open>
  The score last published for the player \<open>p\<close> (\<^verbatim>\<open>scoreRef.current\<close>) is the floor of the
  player's score.
\<close>

definition scoreShown :: "nat \<Rightarrow> world \<Rightarrow> bool" where
  "scoreShown p w \<longleftrightarrow> scoreRef w = real_of_int \<lfloor>score (heap w p)\<rfloor>"

section \<open>Example worlds\<close>

text \<open>
  A snake as \<^verbatim>\<open>createSnake\<close> builds it (ten segments laid out to the left of the head at
  \<open>(x, y)\<close>, target length 10), with a chosen heading.
\<close>

definition exampleSnake :: "string \<Rightarrow> real \<Rightarrow> real \<Rightarrow> real \<Rightarrow> bool \<Rightarrow> snake" where
  "exampleSnake n x y ang isbot =
     \<lparr>sid = n, name = n,
      body = [\<lparr>px = x, py = y\<rparr>, \<lparr>px = x - 5, py = y\<rparr>, \<lparr>px = x - 10, py = y\<rparr>,
              \<lparr>px = x - 15, py = y\<rparr>, \<lparr>px = x - 20, py = y\<rparr>, \<lparr>px = x - 25, py = y\<rparr>,
              \<lparr>px = x - 30, py = y\<rparr>, \<lparr>px = x - 35, py = y\<rparr>, \<lparr>px = x - 40, py = y\<rparr>,
              \<lparr>px = x - 45, py = y\<rparr>],
      angle = ang, slength = 10, color = ''#ef4444'', isBoosting = False, score = 0,
      isDead = False, isBot = isbot, skinIndex = 0\<rparr>"

text \<open>A world with the given store, player, bots and food; every random draw is 0.9.\<close>

definition exampleWorld ::
    "(nat \<Rightarrow> snake) \<Rightarrow> nat option \<Rightarrow> nat list \<Rightarrow> food list \<Rightarrow> world" where
  "exampleWorld h p bs fs =
     \<lparr>heap = h, nextRef = 100, playerRef = p, botsRef = bs, foodRef = fs,
      particlesRef = [], cameraRef = \<lparr>px = 0, py = 0\<rparr>, scoreRef = 0,
      rnd = (\<lambda>_. 0.9), rix = 0, timers = [], gameOverLog = [], setScoreLog = [],
      leaderboardLog = []\<rparr>"

text \<open>A world whose only snake is a living player at the origin, with heading \<open>a\<close>.\<close>

definition turnWorld :: "real \<Rightarrow> world" where
  "turnWorld a = exampleWorld (\<lambda>_. exampleSnake ''You'' 0 0 a False) (Some 0) [] []"

text \<open>The same store with no player installed.\<close>

definition emptyWorld :: world where
  "emptyWorld = exampleWorld (\<lambda>_. exampleSnake ''You'' 0 0 0 False) None [] []"

text \<open>A consumable of value \<open>v\<close> and radius 4 at \<open>(x, y)\<close>.\<close>

definition foodAt :: "real \<Rightarrow> real \<Rightarrow> real \<Rightarrow> food" where
  "foodAt x y v = \<lparr>px = x, py = y, idSeed = 0, fvalue = v, hue = 0, radius = 4\<rparr>"

text \<open>
  A lone player whose head is at \<open>(-5, 0)\<close>, heading east, and one consumable at the origin:
  one motion step puts the head on the consumable.
\<close>

definition foodWorld :: world where
  "foodWorld = exampleWorld (\<lambda>_. exampleSnake ''You'' (- 5) 0 0 False) (Some 0) [] [foodAt 0 0 10]"

text \<open>
  A player five units from the east border, heading east, and a bot that is already dead.
\<close>

definition edgeWorld :: world where
  "edgeWorld =
     exampleWorld ((\<lambda>_. exampleSnake ''You'' 1998 0 0 False)
                     (1 := (exampleSnake ''Bot 1'' 0 0 0 True)\<lparr>isDead := True\<rparr>))
       (Some 0) [1] []"



text \<open>A player and a bot with the same ten segments: their heads coincide at the origin.\<close>

definition duelWorld :: world where
  "duelWorld =
     exampleWorld ((\<lambda>_. exampleSnake ''You'' 0 0 0 False)
                     (1 := exampleSnake ''Bot 1'' 0 0 0 True))
       (Some 0) [1] []"

text \<open>
  The same two creatures, and a second bot five hundred units to the east, away from both.
\<close>

definition trioWorld :: world where
  "trioWorld =
     exampleWorld ((\<lambda>_. exampleSnake ''You'' 0 0 0 False)
                     (1 := exampleSnake ''Bot 1'' 0 0 0 True,
                      2 := exampleSnake ''Bot 2'' 500 0 0 True))
       (Some 0) [1, 2] []"

text \<open>
  A player heading east towards the origin, and two bots heading east whose bodies pass
  within 20 units of the origin: after one motion step the player's head is within 20
  units of a sampled segment of each bot, while no bot head is near any sampled segment.
\<close>

definition crossingWorld :: world where
  "crossingWorld =
     exampleWorld ((\<lambda>_. exampleSnake ''You'' (- 5) 0 0 False)
                     (1 := exampleSnake ''Bot 1'' 50 0 0 True,
                      2 := exampleSnake ''Bot 2'' 25 19.5 0 True))
       (Some 0) [1, 2] []"

text \<open>The pointer one pixel to the right of the centre of a window of size 0: the target angle is 0.\<close>

definition exampleInput :: input where
  "exampleInput = \<lparr>mouseX = 1, mouseY = 0, mouseDown = False, innerWidth = 0, innerHeight = 0\<rparr>"

section \<open>Geometry: the shortest angle difference\<close>

lemma js_rem_nonneg:
  assumes "0 < m" "0 \<le> x"
  shows "0 \<le> js_rem x m \<and> js_rem x m < m"
proof -
  have q: "0 \<le> x / m" using assms by simp
  have "of_int \<lfloor>x / m\<rfloor> \<le> x / m" "x / m < of_int \<lfloor>x / m\<rfloor> + 1" by linarith+
  then have "of_int \<lfloor>x / m\<rfloor> * m \<le> x" "x < (of_int \<lfloor>x / m\<rfloor> + 1) * m"
    using assms(1) by (simp_all only: pos_le_divide_eq pos_divide_less_eq)
  then show ?thesis using q by (simp add: js_rem_def algebra_simps)
qed

lemma js_rem_neg:
  assumes "0 < m" "x < 0"
  shows "- m < js_rem x m \<and> js_rem x m \<le> 0"
proof -
  have q: "\<not> 0 \<le> x / m" using assms by (simp add: field_simps)
  have "x / m \<le> of_int \<lceil>x / m\<rceil>" "of_int \<lceil>x / m\<rceil> - 1 < x / m" by linarith+
  then have "x \<le> of_int \<lceil>x / m\<rceil> * m" "(of_int \<lceil>x / m\<rceil> - 1) * m < x"
    using assms(1) by (simp_all only: pos_divide_le_eq pos_less_divide_eq)
  then show ?thesis using q by (simp add: js_rem_def algebra_simps)
qed

lemma js_rem_multiple: "\<exists>k::int. js_rem x m = x - m * of_int k"
  unfolding js_rem_def by blast

lemma angleDiff_range:
  "- pi \<le> getShortestAngleDiff a b \<and> getShortestAngleDiff a b < pi"
proof (cases "0 \<le> b - a + pi")
  case True
  from js_rem_nonneg[of "2 * pi" "b - a + pi"] True
  show ?thesis by (simp add: getShortestAngleDiff_def Let_def)
next
  case False
  from js_rem_neg[of "2 * pi" "b - a + pi"] False
  show ?thesis by (auto simp add: getShortestAngleDiff_def Let_def)
qed

lemma angleDiff_congruent:
  "\<exists>k::int. a + getShortestAngleDiff a b = b + 2 * pi * of_int k"
proof -
  obtain k :: int where k: "js_rem (b - a + pi) (2 * pi) = (b - a + pi) - (2 * pi) * of_int k"
    using js_rem_multiple by blast
  show ?thesis
  proof (cases "js_rem (b - a + pi) (2 * pi) - pi < - pi")
    case True
    then have "a + getShortestAngleDiff a b = b + 2 * pi * of_int (1 - k)"
      using k by (simp add: getShortestAngleDiff_def Let_def algebra_simps)
    then show ?thesis by blast
  next
    case False
    then have "a + getShortestAngleDiff a b = b + 2 * pi * of_int (- k)"
      using k by (simp add: getShortestAngleDiff_def Let_def algebra_simps)
    then show ?thesis by blast
  qed
qed

lemma representative_unique:
  fixes x y :: real and k :: int
  assumes "- pi < x" "x < pi" "- pi \<le> y" "y < pi" "x = y + 2 * pi * of_int k"
  shows "x = y"
proof -
  have "\<bar>2 * pi * of_int k\<bar> < 2 * pi" using assms by linarith
  then have "\<bar>of_int k :: real\<bar> < 1" by (simp add: abs_mult)
  then have "k = 0" by linarith
  then show ?thesis using assms by simp
qed

lemma angleDiff_antisym:
  assumes "getShortestAngleDiff a b \<noteq> - pi"
  shows "getShortestAngleDiff a b = - getShortestAngleDiff b a"
proof -
  obtain k :: int where k: "a + getShortestAngleDiff a b = b + 2 * pi * of_int k"
    using angleDiff_congruent by blast
  obtain l :: int where l: "b + getShortestAngleDiff b a = a + 2 * pi * of_int l"
    using angleDiff_congruent by blast
  have r1: "- pi < getShortestAngleDiff a b" "getShortestAngleDiff a b < pi"
    using angleDiff_range[of a b] assms by auto
  have r2: "- pi \<le> getShortestAngleDiff b a" "getShortestAngleDiff b a < pi"
    using angleDiff_range[of b a] by auto
  have "- getShortestAngleDiff a b = getShortestAngleDiff b a + 2 * pi * of_int (- k - l)"
    using k l by (simp add: algebra_simps)
  from representative_unique[OF _ _ r2 this] r1 show ?thesis by simp
qed

text \<open>
  C4, as stated, fails. From 0 to \<open>pi\<close> the function returns \<open>- pi\<close>, which is outside
  the interval \<open>(- pi, pi]\<close>; and from \<open>pi\<close> to 0 it returns \<open>- pi\<close> as well, so the two
  results are not opposite.
\<close>

theorem getShortestAngleDiff_boundary_counterexample:
  "\<not> (- pi < getShortestAngleDiff 0 pi \<and> getShortestAngleDiff 0 pi \<le> pi)
   \<and> getShortestAngleDiff 0 pi \<noteq> - getShortestAngleDiff pi 0"
  by (simp add: getShortestAngleDiff_def js_rem_def)

text \<open>
  C4, amended: for all angles \<open>a\<close> and \<open>b\<close> the result of \<open>getShortestAngleDiff a b\<close> lies
  in the half-open interval \<open>[- pi, pi)\<close>, adding it to \<open>a\<close> gives \<open>b\<close> up to a multiple of
  \<open>2 * pi\<close>, and \<open>getShortestAngleDiff a b = - getShortestAngleDiff b a\<close> whenever the result
  is not the boundary value \<open>- pi\<close>.
\<close>

theorem getShortestAngleDiff_spec:
  "- pi \<le> getShortestAngleDiff a b \<and> getShortestAngleDiff a b < pi
   \<and> (\<exists>k::int. a + getShortestAngleDiff a b = b + 2 * pi * of_int k)
   \<and> (getShortestAngleDiff a b \<noteq> - pi
        \<longrightarrow> getShortestAngleDiff a b = - getShortestAngleDiff b a)"
  using angleDiff_range[of a b] angleDiff_congruent[of a b] angleDiff_antisym[of a b]
  by blast

theorem getShortestAngleDiff_spec_witness:
  "getShortestAngleDiff 0 (pi / 2) \<noteq> - pi
   \<and> getShortestAngleDiff 0 (pi / 2) = - getShortestAngleDiff (pi / 2) 0
   \<and> - pi \<le> getShortestAngleDiff 0 (pi / 2) \<and> getShortestAngleDiff 0 (pi / 2) < pi"
proof -
  have h: "getShortestAngleDiff 0 (pi / 2) \<noteq> - pi"
    by (simp add: getShortestAngleDiff_def js_rem_def)
  show ?thesis using h getShortestAngleDiff_spec[of 0 "pi / 2"] by blast
qed

section \<open>Player steering\<close>

lemma js_rem_small:
  assumes "0 \<le> x" "x < m"
  shows "js_rem x m = x"
proof -
  from assms have "0 \<le> x / m" "x / m < 1" by simp_all
  then have "\<lfloor>x / m\<rfloor> = 0" by linarith
  then show ?thesis using \<open>0 \<le> x / m\<close> by (simp add: js_rem_def)
qed

lemma angleDiff_to_zero:
  assumes "0 \<le> a" "a \<le> 2"
  shows "getShortestAngleDiff a 0 = - a"
proof -
  have "0 \<le> 0 - a + pi" "0 - a + pi < 2 * pi"
    using assms pi_ge_two by linarith+
  then have "js_rem (0 - a + pi) (2 * pi) = 0 - a + pi"
    by (rule js_rem_small)
  moreover have "\<not> - a < - pi" using assms pi_ge_two by linarith
  ultimately show ?thesis by (simp add: getShortestAngleDiff_def Let_def)
qed

lemma exampleInput_target:
  "getAngle \<lparr>px = innerWidth exampleInput / 2, py = innerHeight exampleInput / 2\<rparr>
            \<lparr>px = mouseX exampleInput, py = mouseY exampleInput\<rparr> = 0"
  by (simp add: getAngle_def atan2_def exampleInput_def)

lemma turnWorld_angle: "angle (heap (turnWorld a) 0) = a"
  by (simp add: turnWorld_def exampleWorld_def exampleSnake_def)

lemma turnWorld_steered:
  assumes "0 \<le> a" "a \<le> 2"
  shows "angle (heap (steerPlayer exampleInput 0 (turnWorld a)) 0) = a - min a TURN_SPEED"
proof -
  have "sgn (- a) * min \<bar>- a\<bar> TURN_SPEED = - min a TURN_SPEED"
    using assms(1) by (simp add: sgn_real_def min_def)
  then show ?thesis
    using angleDiff_to_zero[OF assms]
    by (simp add: steerPlayer_def Let_def modify_def exampleInput_target turnWorld_angle)
qed

text \<open>
  C5: one steering step changes the player's heading by at most \<open>TURN_SPEED\<close> in absolute
  value, whatever the pointer position; and when the shortest signed difference to the
  target angle is smaller in magnitude than \<open>TURN_SPEED\<close>, the new heading is the target
  angle up to a multiple of \<open>2 * pi\<close>.
\<close>

theorem steerPlayer_bounded_turn:
  fixes inp :: input and w :: world and p :: nat
  defines "target \<equiv> getAngle \<lparr>px = innerWidth inp / 2, py = innerHeight inp / 2\<rparr>
                              \<lparr>px = mouseX inp, py = mouseY inp\<rparr>"
  shows "\<bar>angle (heap (steerPlayer inp p w) p) - angle (heap w p)\<bar> \<le> TURN_SPEED
         \<and> (\<bar>getShortestAngleDiff (angle (heap w p)) target\<bar> < TURN_SPEED
              \<longrightarrow> (\<exists>k::int. angle (heap (steerPlayer inp p w) p) = target + 2 * pi * of_int k))"
proof -
  define d where "d = getShortestAngleDiff (angle (heap w p)) target"
  have new: "angle (heap (steerPlayer inp p w) p) = angle (heap w p) + sgn d * min \<bar>d\<bar> TURN_SPEED"
    by (simp add: steerPlayer_def modify_def Let_def d_def target_def)
  have "\<bar>sgn d * min \<bar>d\<bar> TURN_SPEED\<bar> \<le> TURN_SPEED"
    by (auto simp add: abs_mult sgn_real_def min_def)
  then have bound: "\<bar>angle (heap (steerPlayer inp p w) p) - angle (heap w p)\<bar> \<le> TURN_SPEED"
    using new by simp
  have exact: "\<exists>k::int. angle (heap (steerPlayer inp p w) p) = target + 2 * pi * of_int k"
    if "\<bar>d\<bar> < TURN_SPEED"
  proof -
    have "sgn d * min \<bar>d\<bar> TURN_SPEED = d"
      using that by (simp add: sgn_real_def min_def)
    then have "angle (heap (steerPlayer inp p w) p) = angle (heap w p) + d"
      using new by simp
    then show ?thesis
      using angleDiff_congruent[of "angle (heap w p)" target] by (simp add: d_def)
  qed
  show ?thesis using bound exact by (simp add: d_def)
qed

theorem steerPlayer_bounded_turn_witness:
  "angle (heap (turnWorld (1 / 20)) 0) = 1 / 20
   \<and> getShortestAngleDiff (1 / 20) 0 = - (1 / 20)
   \<and> angle (heap (steerPlayer exampleInput 0 (turnWorld (1 / 20))) 0) = 0
   \<and> \<bar>angle (heap (steerPlayer exampleInput 0 (turnWorld (1 / 20))) 0)
        - angle (heap (turnWorld (1 / 20)) 0)\<bar> \<le> TURN_SPEED
   \<and> (\<exists>k::int. angle (heap (steerPlayer exampleInput 0 (turnWorld (1 / 20))) 0)
                  = 0 + 2 * pi * of_int k)
   \<and> angle (heap (turnWorld 1) 0) = 1
   \<and> getShortestAngleDiff 1 0 = - 1
   \<and> angle (heap (steerPlayer exampleInput 0 (turnWorld 1)) 0) = 22 / 25
   \<and> \<bar>angle (heap (steerPlayer exampleInput 0 (turnWorld 1)) 0)
        - angle (heap (turnWorld 1) 0)\<bar> \<le> TURN_SPEED"
proof -
  let ?t = "getAngle \<lparr>px = innerWidth exampleInput / 2, py = innerHeight exampleInput / 2\<rparr>
                     \<lparr>px = mouseX exampleInput, py = mouseY exampleInput\<rparr>"
  have t: "?t = 0" by (rule exampleInput_target)
  have d: "getShortestAngleDiff (1 / 20) 0 = - (1 / 20)" "getShortestAngleDiff 1 0 = - 1"
    by (simp_all add: angleDiff_to_zero)
  have h: "\<bar>getShortestAngleDiff (angle (heap (turnWorld (1 / 20)) 0)) 0\<bar> < TURN_SPEED"
    by (simp only: turnWorld_angle d) simp
  have new: "angle (heap (steerPlayer exampleInput 0 (turnWorld (1 / 20))) 0) = 0"
    "angle (heap (steerPlayer exampleInput 0 (turnWorld 1)) 0) = 22 / 25"
    by (simp_all add: turnWorld_steered)
  from steerPlayer_bounded_turn[of exampleInput 0 "turnWorld (1 / 20)"] h
  have near: "\<bar>angle (heap (steerPlayer exampleInput 0 (turnWorld (1 / 20))) 0)
                - angle (heap (turnWorld (1 / 20)) 0)\<bar> \<le> TURN_SPEED
        \<and> (\<exists>k::int. angle (heap (steerPlayer exampleInput 0 (turnWorld (1 / 20))) 0)
                       = 0 + 2 * pi * of_int k)"
    by (simp only: t)
  from steerPlayer_bounded_turn[of exampleInput 0 "turnWorld 1"]
  have far: "\<bar>angle (heap (steerPlayer exampleInput 0 (turnWorld 1)) 0)
               - angle (heap (turnWorld 1) 0)\<bar> \<le> TURN_SPEED"
    by (rule conjunct1)
  from turnWorld_angle[of "1 / 20"] turnWorld_angle[of 1] d new near far
  show ?thesis by (intro conjI) (erule conjunct1 conjunct2 | assumption)+
qed

section \<open>The early return of update\<close>

text \<open>
  C10: when there is no player, or the player is marked dead, \<open>update\<close> returns at once
  and the whole world (store, bots, food, particles, camera, logs, random stream) is the
  one it was called with.
\<close>

theorem update_without_living_player:
  "playerRef w = None \<or> (\<exists>p. playerRef w = Some p \<and> isDead (heap w p))
   \<Longrightarrow> update inp w = Some w"
  by (auto simp add: update_def)

theorem update_without_living_player_witness:
  "playerRef emptyWorld = None \<and> update exampleInput emptyWorld = Some emptyWorld"
proof -
  have h: "playerRef emptyWorld = None"
    by (simp add: emptyWorld_def exampleWorld_def)
  show ?thesis using update_without_living_player[of emptyWorld exampleInput] h by blast
qed


section \<open>Effects of the steps of a tick\<close>

lemma deadFrozen_refl: "deadFrozen w w" by (simp add: deadFrozen_def)
lemma deadFrozen_trans: "deadFrozen w w1 \<Longrightarrow> deadFrozen w1 w2 \<Longrightarrow> deadFrozen w w2"
  by (simp add: deadFrozen_def)
lemma grows_refl: "grows w w" by (simp add: grows_def)
lemma grows_trans: "grows w w1 \<Longrightarrow> grows w1 w2 \<Longrightarrow> grows w w2"
  unfolding grows_def by (meson order_trans)

lemma forEachM_rel:
  assumes step: "\<And>a w w'. f a w = Some w' \<Longrightarrow> R w w'"
    and refl: "\<And>w. R w w"
    and trans: "\<And>w w1 w2. R w w1 \<Longrightarrow> R w1 w2 \<Longrightarrow> R w w2"
  shows "forEachM f as w = Some w' \<Longrightarrow> R w w'"
proof (induction as arbitrary: w)
  case Nil
  then show ?case by (simp add: refl)
next
  case (Cons a as)
  then obtain w1 where 1: "f a w = Some w1" and 2: "forEachM f as w1 = Some w'"
    by (auto split: option.splits)
  from step[OF 1] Cons.IH[OF 2] show ?case by (rule trans)
qed

subsection \<open>Effects of the primitive operations\<close>

lemma random_simps [simp]:
  "fst (random w) = rnd w (rix w)" "snd (random w) = w\<lparr>rix := Suc (rix w)\<rparr>"
  by (simp_all add: random_def)

lemma modify_simps [simp]:
  "heap (modify a f w) = (heap w)(a := f (heap w a))"
  "foodRef (modify a f w) = foodRef w"
  "botsRef (modify a f w) = botsRef w"
  "playerRef (modify a f w) = playerRef w"
  "timers (modify a f w) = timers w"
  "gameOverLog (modify a f w) = gameOverLog w"
  "scoreRef (modify a f w) = scoreRef w"
  "rix (modify a f w) = rix w"
  "rnd (modify a f w) = rnd w"
  by (simp_all add: modify_def)

lemma createFood_world [simp]:
  "heap (snd (createFood xo yo v w)) = heap w"
  "foodRef (snd (createFood xo yo v w)) = foodRef w"
  "botsRef (snd (createFood xo yo v w)) = botsRef w"
  "playerRef (snd (createFood xo yo v w)) = playerRef w"
  "timers (snd (createFood xo yo v w)) = timers w"
  "gameOverLog (snd (createFood xo yo v w)) = gameOverLog w"
  "scoreRef (snd (createFood xo yo v w)) = scoreRef w"
  "rnd (snd (createFood xo yo v w)) = rnd w"
  by (simp_all add: createFood_def Let_def split_def split: option.splits)

lemma createFood_food [simp]:
  "fvalue (fst (createFood xo yo v w)) = v"
  "px (fst (createFood (Some x) yo v w)) = x"
  "py (fst (createFood xo (Some y) v w)) = y"
  by (simp_all add: createFood_def Let_def split_def split: option.splits)

lemma pushFood_simps [simp]:
  "heap (pushFood fw) = heap (snd fw)"
  "foodRef (pushFood fw) = foodRef (snd fw) @ [fst fw]"
  "botsRef (pushFood fw) = botsRef (snd fw)"
  "playerRef (pushFood fw) = playerRef (snd fw)"
  "timers (pushFood fw) = timers (snd fw)"
  "gameOverLog (pushFood fw) = gameOverLog (snd fw)"
  "scoreRef (pushFood fw) = scoreRef (snd fw)"
  "rnd (pushFood fw) = rnd (snd fw)"
  by (simp_all add: pushFood_def split_def)

lemma bodyToFood_world [simp]:
  "heap (bodyToFood segs i w) = heap w"
  "botsRef (bodyToFood segs i w) = botsRef w"
  "playerRef (bodyToFood segs i w) = playerRef w"
  "timers (bodyToFood segs i w) = timers w"
  "gameOverLog (bodyToFood segs i w) = gameOverLog w"
  "scoreRef (bodyToFood segs i w) = scoreRef w"
  "rnd (bodyToFood segs i w) = rnd w"
  by (induction segs i w rule: bodyToFood.induct; simp)+

lemma foodPositive_push [simp]:
  "foodPositive (pushFood (createFood xo yo v w)) \<longleftrightarrow> foodPositive w \<and> 0 < v"
  by (auto simp add: foodPositive_def)

lemma bodyToFood_positive:
  "foodPositive w \<Longrightarrow> foodPositive (bodyToFood segs i w)"
proof (induction segs arbitrary: i w)
  case Nil
  then show ?case by simp
next
  case (Cons seg segs)
  show ?case
    by (simp only: bodyToFood.simps) (rule Cons.IH, simp add: Cons.prems)
qed

lemma killSnake_heap [simp]:
  "heap (killSnake a w) = (heap w)(a := (heap w a)\<lparr>isDead := True\<rparr>)"
  by (simp add: killSnake_def Let_def)

lemma killSnake_scoreRef [simp]: "scoreRef (killSnake a w) = scoreRef w"
  by (simp add: killSnake_def Let_def)

lemma killSnake_rnd [simp]: "rnd (killSnake a w) = rnd w"
  by (simp add: killSnake_def Let_def)

lemma killSnake_positive: "foodPositive w \<Longrightarrow> foodPositive (killSnake a w)"
proof -
  assume "foodPositive w"
  then have "foodPositive (modify a (\<lambda>s. s\<lparr>isDead := True\<rparr>) w)"
    by (simp add: foodPositive_def)
  from bodyToFood_positive[OF this] show ?thesis
    by (simp add: killSnake_def Let_def foodPositive_def)
qed

lemma killSnake_deadFrozen: "deadFrozen w (killSnake a w)"
  by (simp add: deadFrozen_def)

lemma killSnake_grows: "grows w (killSnake a w)"
  by (simp add: grows_def killSnake_positive lenInv_def)


subsection \<open>Steering\<close>

lemma steerPlayer_deadFrozen: "\<not> isDead (heap w p) \<Longrightarrow> deadFrozen w (steerPlayer inp p w)"
  by (simp add: deadFrozen_def steerPlayer_def Let_def)

lemma steerPlayer_grows: "grows w (steerPlayer inp p w)"
  by (simp add: grows_def steerPlayer_def Let_def foodPositive_def lenInv_def)

lemma steerPlayer_botsRef [simp]: "botsRef (steerPlayer inp p w) = botsRef w"
  by (simp add: steerPlayer_def Let_def)

lemma wander_simps [simp]:
  "b \<noteq> a \<Longrightarrow> heap (wander a w) b = heap w b"
  "body (heap (wander a w) b) = body (heap w b)"
  "slength (heap (wander a w) b) = slength (heap w b)"
  "score (heap (wander a w) b) = score (heap w b)"
  "isDead (heap (wander a w) b) = isDead (heap w b)"
  "foodRef (wander a w) = foodRef w"
  "botsRef (wander a w) = botsRef w"
  by (simp_all add: wander_def Let_def split_def)

lemma avoidBorders_simps [simp]:
  "b \<noteq> a \<Longrightarrow> heap (avoidBorders a h w) b = heap w b"
  "body (heap (avoidBorders a h w) b) = body (heap w b)"
  "slength (heap (avoidBorders a h w) b) = slength (heap w b)"
  "score (heap (avoidBorders a h w) b) = score (heap w b)"
  "isDead (heap (avoidBorders a h w) b) = isDead (heap w b)"
  "foodRef (avoidBorders a h w) = foodRef w"
  "botsRef (avoidBorders a h w) = botsRef w"
  by (simp_all add: avoidBorders_def Let_def)

lemma randomBoost_simps [simp]:
  "b \<noteq> a \<Longrightarrow> heap (randomBoost a w) b = heap w b"
  "body (heap (randomBoost a w) b) = body (heap w b)"
  "slength (heap (randomBoost a w) b) = slength (heap w b)"
  "score (heap (randomBoost a w) b) = score (heap w b)"
  "isDead (heap (randomBoost a w) b) = isDead (heap w b)"
  "foodRef (randomBoost a w) = foodRef w"
  "botsRef (randomBoost a w) = botsRef w"
  by (simp_all add: randomBoost_def Let_def split_def)

lemma updateBot_dead: "isDead (heap w a) \<Longrightarrow> updateBot a w = Some w"
  by (simp add: updateBot_def)

lemma updateBot_other: "updateBot a w = Some w' \<Longrightarrow> b \<noteq> a \<Longrightarrow> heap w' b = heap w b"
  by (auto simp add: updateBot_def Let_def split: if_splits option.splits)

lemma updateBot_grows: "updateBot a w = Some w' \<Longrightarrow> grows w w'"
  by (auto simp add: updateBot_def Let_def grows_def foodPositive_def lenInv_def
      split: if_splits option.splits)

lemma updateBot_botsRef: "updateBot a w = Some w' \<Longrightarrow> botsRef w' = botsRef w"
  by (auto simp add: updateBot_def Let_def split: if_splits option.splits)

subsection \<open>Motion\<close>

lemma maintain_Some:
  "maintain n b = Some b' \<Longrightarrow> int (length b') \<le> n \<and> b' = take (nat n) b"
proof (rule maintain.raw_induct[where P = "\<lambda>n b b'. int (length b') \<le> n \<and> b' = take (nat n) b"])
  fix mt n b y
  assume IH: "\<And>n b y. mt n b = Some y \<Longrightarrow> int (length y) \<le> n \<and> y = take (nat n) b"
    and eq: "(if n < int (length b) then mt n (butlast b) else Some b) = Some y"
  show "int (length y) \<le> n \<and> y = take (nat n) b"
  proof (cases "n < int (length b)")
    case True
    with eq IH have A: "int (length y) \<le> n" and B: "y = take (nat n) (butlast b)"
      by simp_all
    have C: "take (nat n) (butlast b) = take (nat n) b"
    proof (cases "b = []")
      case True
      then show ?thesis by simp
    next
      case False
      then have "nat n < length b" using \<open>n < int (length b)\<close> by (cases b) auto
      then show ?thesis by (rule take_butlast)
    qed
    show ?thesis by (intro conjI) (rule A, simp only: B C)
  next
    case False
    with eq show ?thesis by auto
  qed
qed

lemma maintain_nonneg: "0 \<le> n \<Longrightarrow> maintain n b = Some (take (nat n) b)"
proof (induction b rule: rev_induct)
  case Nil
  then show ?case by (subst maintain.simps) simp
next
  case (snoc x xs)
  show ?case
  proof (cases "int (length (xs @ [x])) > n")
    case True
    then have "maintain n (xs @ [x]) = maintain n xs"
      by (subst maintain.simps) simp
    also have "\<dots> = Some (take (nat n) xs)" using snoc by simp
    finally show ?thesis using True by simp
  next
    case False
    then show ?thesis by (subst maintain.simps) simp
  qed
qed

lemma killSnake_botsRef [simp]: "botsRef (killSnake a w) = botsRef w"
  by (simp add: killSnake_def Let_def)

lemma boostCost_simps [simp]:
  "heap (boostCost a w) = (heap w)(a := (heap w a)\<lparr>slength := slength (heap w a) - 0.1\<rparr>)"
  "botsRef (boostCost a w) = botsRef w"
  by (simp_all add: boostCost_def Let_def split_def)

lemma boostCost_positive: "foodPositive w \<Longrightarrow> foodPositive (boostCost a w)"
  by (simp add: boostCost_def Let_def split_def) (simp add: foodPositive_def)

lemma moveSnake_dead: "isDead (heap w a) \<Longrightarrow> moveSnake a w = Some w"
  by (simp add: moveSnake_def)

lemma moveSnake_other: "moveSnake a w = Some w' \<Longrightarrow> b \<noteq> a \<Longrightarrow> heap w' b = heap w b"
  by (auto simp add: moveSnake_def Let_def split: if_splits option.splits)

lemma moveSnake_botsRef: "moveSnake a w = Some w' \<Longrightarrow> botsRef w' = botsRef w"
  by (auto simp add: moveSnake_def Let_def split: if_splits option.splits)

lemma foodPositive_modify [simp]: "foodPositive (modify a f w) = foodPositive w"
  by (simp add: foodPositive_def)

lemma moveSnake_positive: "moveSnake a w = Some w' \<Longrightarrow> foodPositive w \<Longrightarrow> foodPositive w'"
  by (auto simp add: moveSnake_def Let_def killSnake_positive boostCost_positive
      split: if_splits option.splits)

lemma moveSnake_score: "moveSnake a w = Some w' \<Longrightarrow> score (heap w' b) = score (heap w b)"
  by (auto simp add: moveSnake_def Let_def split: if_splits option.splits)

lemma moveSnake_lenInv:
  "moveSnake a w = Some w' \<Longrightarrow> lenInv (heap w b) \<Longrightarrow> lenInv (heap w' b)"
  by (auto simp add: moveSnake_def Let_def lenInv_def
      split: if_splits option.splits dest!: maintain_Some)

lemma moveSnake_grows: "moveSnake a w = Some w' \<Longrightarrow> grows w w'"
  by (simp add: grows_def moveSnake_positive moveSnake_score moveSnake_lenInv)


subsection \<open>Consumption\<close>

lemma eatLoop_None: "eatLoop p a None r n w = (if n = 0 then Some w else None)"
  by (cases n) simp_all

lemma eatLoop_closed:
  fixes h :: point
  defines "cc \<equiv> (\<lambda>r f. checkCircleCollision h r f (radius f))"
  assumes "n \<le> length (foodRef w)"
  shows "\<exists>w'. eatLoop p a (Some h) r n w = Some w'
           \<and> foodRef w' = filter (\<lambda>f. \<not> cc r f) (take n (foodRef w)) @ drop n (foodRef w)
           \<and> heap w' = (heap w)(a := (heap w a)
                \<lparr>slength := slength (heap w a)
                     + sum_list (map (\<lambda>f. fvalue f / 10) (filter (cc r) (take n (foodRef w)))),
                 score := score (heap w a)
                     + sum_list (map fvalue (filter (cc r) (take n (foodRef w))))\<rparr>)
           \<and> botsRef w' = botsRef w"
  using assms(2)
proof (induction n arbitrary: w)
  case 0
  then show ?case by simp
next
  case (Suc i)
  let ?fs = "foodRef w"
  let ?f = "?fs ! i"
  have i: "i < length ?fs" using Suc.prems by simp
  have tk: "take (Suc i) ?fs = take i ?fs @ [?f]"
    using i by (simp add: take_Suc_conv_app_nth)
  show ?case
  proof (cases "cc r ?f")
    case False
    then have step: "eatLoop p a (Some h) r (Suc i) w = eatLoop p a (Some h) r i w"
      by (simp add: cc_def Let_def)
    have dr: "drop i ?fs = ?f # drop (Suc i) ?fs"
      using i by (simp add: Cons_nth_drop_Suc)
    have "i \<le> length ?fs" using i by simp
    from Suc.IH[OF this] obtain w' where
      1: "eatLoop p a (Some h) r i w = Some w'" and
      2: "foodRef w' = filter (\<lambda>f. \<not> cc r f) (take i ?fs) @ drop i ?fs" and
      3: "heap w' = (heap w)(a := (heap w a)
                \<lparr>slength := slength (heap w a)
                     + sum_list (map (\<lambda>f. fvalue f / 10) (filter (cc r) (take i ?fs))),
                 score := score (heap w a)
                     + sum_list (map fvalue (filter (cc r) (take i ?fs)))\<rparr>)" and
      4: "botsRef w' = botsRef w"
      by (elim exE conjE)
    show ?thesis
      apply (rule exI[of _ w'])
      apply (simp only: step 1 2 3 4 tk dr)
      using False apply simp
      done
  next
    case True
    define s1 where "s1 = (heap w a)\<lparr>slength := slength (heap w a) + fvalue ?f / 10,
                                    score := score (heap w a) + fvalue ?f\<rparr>"
    define w4 where "w4 =
       (let w1 = modify a (\<lambda>s. s\<lparr>slength := slength s + fvalue ?f / 10\<rparr>) w;
            w2 = modify a (\<lambda>s. s\<lparr>score := score s + fvalue ?f\<rparr>) w1;
            w3 = (if a = p
                  then (let v = real_of_int \<lfloor>score (heap w2 a)\<rfloor>
                        in w2\<lparr>scoreRef := v, setScoreLog := setScoreLog w2 @ [v]\<rparr>)
                  else w2)
        in w3\<lparr>foodRef := take i (foodRef w3) @ drop (Suc i) (foodRef w3)\<rparr>)"
    have step: "eatLoop p a (Some h) r (Suc i) w = eatLoop p a (Some h) r i w4"
      using True by (simp add: cc_def Let_def w4_def)
    have f4: "foodRef w4 = take i ?fs @ drop (Suc i) ?fs"
      and h4: "heap w4 = (heap w)(a := s1)"
      and b4: "botsRef w4 = botsRef w"
      by (simp_all add: w4_def Let_def s1_def)
    have len4: "i \<le> length (foodRef w4)" using i by (simp add: f4)
    have tk4: "take i (foodRef w4) = take i ?fs" and dr4: "drop i (foodRef w4) = drop (Suc i) ?fs"
      using i by (simp_all add: f4)
    from Suc.IH[OF len4] obtain w' where
      1: "eatLoop p a (Some h) r i w4 = Some w'" and
      2: "foodRef w' = filter (\<lambda>f. \<not> cc r f) (take i ?fs) @ drop (Suc i) ?fs" and
      3: "heap w' = (heap w4)(a := (heap w4 a)
                \<lparr>slength := slength (heap w4 a)
                     + sum_list (map (\<lambda>f. fvalue f / 10) (filter (cc r) (take i ?fs))),
                 score := score (heap w4 a)
                     + sum_list (map fvalue (filter (cc r) (take i ?fs)))\<rparr>)" and
      4: "botsRef w' = botsRef w"
      unfolding tk4 dr4 b4 by (elim exE conjE)
    show ?thesis
      apply (rule exI[of _ w'])
      apply (simp only: step 1 2 3 4 tk h4)
      using True apply (simp add: s1_def algebra_simps)
      done
  qed
qed


lemma sum_list_tenth:
  "sum_list (map (\<lambda>f. fvalue f / 10) fs) = sum_list (map fvalue fs) / 10"
  by (induction fs) (simp_all add: add_divide_distrib)

lemma respawnFood_simps [simp]:
  "heap (respawnFood w) = heap w"
  "botsRef (respawnFood w) = botsRef w"
  by (simp_all add: respawnFood_def Let_def split_def)

lemma respawnFood_food:
  "\<exists>extra. foodRef (respawnFood w) = foodRef w @ extra \<and> length extra \<le> 1
           \<and> (\<forall>f \<in> set extra. fvalue f = 10)"
  by (simp add: respawnFood_def Let_def split_def)

lemma respawnFood_positive: "foodPositive w \<Longrightarrow> foodPositive (respawnFood w)"
  using respawnFood_food[of w] by (auto simp add: foodPositive_def)

lemma eatSnake_dead: "isDead (heap w a) \<Longrightarrow> eatSnake p a w = Some w"
  by (simp add: eatSnake_def)

lemma eatSnake_closed:
  assumes alive: "\<not> isDead (heap w a)" and hd: "body (heap w a) = h # rest"
  shows "\<exists>w' extra. eatSnake p a w = Some w'
           \<and> foodRef w' = filter (\<lambda>f. \<not> checkCircleCollision h (headRadiusOf (heap w a)) f (radius f))
                              (foodRef w) @ extra
           \<and> length extra \<le> 1 \<and> (\<forall>f \<in> set extra. fvalue f = 10)
           \<and> heap w' = (heap w)(a := (heap w a)
                \<lparr>slength := slength (heap w a)
                     + sum_list (map fvalue (filter (\<lambda>f. checkCircleCollision h (headRadiusOf (heap w a)) f (radius f)) (foodRef w))) / 10,
                 score := score (heap w a)
                     + sum_list (map fvalue (filter (\<lambda>f. checkCircleCollision h (headRadiusOf (heap w a)) f (radius f)) (foodRef w)))\<rparr>)
           \<and> botsRef w' = botsRef w"
proof -
  let ?r = "headRadiusOf (heap w a)"
  from eatLoop_closed[of "length (foodRef w)" w p a h ?r] obtain w1 where
    1: "eatLoop p a (Some h) ?r (length (foodRef w)) w = Some w1" and
    2: "foodRef w1 = filter (\<lambda>f. \<not> checkCircleCollision h ?r f (radius f)) (foodRef w)" and
    3: "heap w1 = (heap w)(a := (heap w a)
                \<lparr>slength := slength (heap w a)
                     + sum_list (map (\<lambda>f. fvalue f / 10) (filter (\<lambda>f. checkCircleCollision h ?r f (radius f)) (foodRef w))),
                 score := score (heap w a)
                     + sum_list (map fvalue (filter (\<lambda>f. checkCircleCollision h ?r f (radius f)) (foodRef w)))\<rparr>)" and
    4: "botsRef w1 = botsRef w"
    by auto
  have e: "eatSnake p a w = Some (respawnFood w1)"
    using alive hd 1 by (simp add: eatSnake_def body0_def Let_def)
  from respawnFood_food[of w1] obtain extra where
    x: "foodRef (respawnFood w1) = foodRef w1 @ extra" "length extra \<le> 1"
       "\<forall>f \<in> set extra. fvalue f = 10"
    by blast
  show ?thesis
    apply (rule exI[of _ "respawnFood w1"])
    apply (rule exI[of _ extra])
    apply (simp only: e x(1) 2 3 4 respawnFood_simps sum_list_tenth)
    using x(2,3) apply simp
    done
qed


lemma eatSnake_empty:
  "\<not> isDead (heap w a) \<Longrightarrow> body (heap w a) = [] \<Longrightarrow> eatSnake p a w = Some w'
   \<Longrightarrow> w' = respawnFood w"
  by (simp add: eatSnake_def body0_def Let_def eatLoop_None split: if_splits)

lemma sum_list_positive_nonneg:
  "\<forall>f \<in> set fs. 0 < fvalue f \<Longrightarrow> 0 \<le> sum_list (map fvalue (filter P fs))"
  by (induction fs) (auto intro: add_nonneg_nonneg less_imp_le)

lemma eatSnake_summary:
  assumes e: "eatSnake p a w = Some w'"
  shows "(\<forall>b. b \<noteq> a \<longrightarrow> heap w' b = heap w b) \<and> botsRef w' = botsRef w \<and> grows w w'"
proof (cases "isDead (heap w a)")
  case True
  with e have "w' = w" by (simp add: eatSnake_def)
  then show ?thesis by (simp add: grows_refl)
next
  case alive: False
  show ?thesis
  proof (cases "body (heap w a)")
    case Nil
    from eatSnake_empty[OF alive Nil e] show ?thesis
      by (simp add: grows_def respawnFood_positive)
  next
    case (Cons h rest)
    let ?ov = "\<lambda>f. checkCircleCollision h (headRadiusOf (heap w a)) f (radius f)"
    from eatSnake_closed[OF alive Cons, of p] e obtain extra where
      f: "foodRef w' = filter (\<lambda>f. \<not> ?ov f) (foodRef w) @ extra" and
      x: "\<forall>f \<in> set extra. fvalue f = 10" and
      h: "heap w' = (heap w)(a := (heap w a)
                \<lparr>slength := slength (heap w a) + sum_list (map fvalue (filter ?ov (foodRef w))) / 10,
                 score := score (heap w a) + sum_list (map fvalue (filter ?ov (foodRef w)))\<rparr>)" and
      b: "botsRef w' = botsRef w"
      by auto
    have g: "grows w w'"
      unfolding grows_def
    proof (intro impI conjI allI)
      assume pos: "foodPositive w"
      then show "foodPositive w'" using x by (auto simp add: foodPositive_def f)
      from pos have nn: "0 \<le> sum_list (map fvalue (filter ?ov (foodRef w)))"
        by (intro sum_list_positive_nonneg) (simp add: foodPositive_def)
      fix c
      show "score (heap w c) \<le> score (heap w' c)" using nn by (simp add: h)
      assume "lenInv (heap w c)"
      moreover have "\<lfloor>slength (heap w a)\<rfloor>
          \<le> \<lfloor>slength (heap w a) + sum_list (map fvalue (filter ?ov (foodRef w))) / 10\<rfloor>"
        using nn by (intro floor_mono) simp
      ultimately show "lenInv (heap w' c)" by (auto simp add: h lenInv_def)
    qed
    show ?thesis using g b by (simp add: h)
  qed
qed

lemma eatSnake_other: "eatSnake p a w = Some w' \<Longrightarrow> b \<noteq> a \<Longrightarrow> heap w' b = heap w b"
  using eatSnake_summary by blast

lemma eatSnake_botsRef: "eatSnake p a w = Some w' \<Longrightarrow> botsRef w' = botsRef w"
  using eatSnake_summary by blast

lemma eatSnake_grows: "eatSnake p a w = Some w' \<Longrightarrow> grows w w'"
  using eatSnake_summary by blast

lemma eatSnake_isDead: "eatSnake p a w = Some w' \<Longrightarrow> isDead (heap w' b) = isDead (heap w b)"
proof (cases "isDead (heap w a)")
  case True
  assume "eatSnake p a w = Some w'"
  with True show ?thesis by (simp add: eatSnake_def)
next
  case alive: False
  assume e: "eatSnake p a w = Some w'"
  show ?thesis
  proof (cases "body (heap w a)")
    case Nil
    from eatSnake_empty[OF alive Nil e] show ?thesis by simp
  next
    case (Cons h rest)
    from eatSnake_closed[OF alive Cons, of p] e obtain v1 v2 where
      "heap w' = (heap w)(a := (heap w a)\<lparr>slength := v1, score := v2\<rparr>)"
      by auto
    then show ?thesis by simp
  qed
qed


subsection \<open>Snake against snake\<close>

lemma checkPair_cases:
  "checkPair a hA b w = Some w' \<Longrightarrow> w' = w \<or> w' = killSnake a w"
  by (auto simp add: checkPair_def Let_def split: if_splits option.splits)

lemma killsOnly_refl: "killsOnly a w w"
  by (simp add: killsOnly_def grows_refl)

lemma killsOnly_trans: "killsOnly a w w1 \<Longrightarrow> killsOnly a w1 w2 \<Longrightarrow> killsOnly a w w2"
  unfolding killsOnly_def by (auto intro: grows_trans)

lemma checkPair_killsOnly: "checkPair a hA b w = Some w' \<Longrightarrow> killsOnly a w w'"
  by (drule checkPair_cases) (auto simp add: killsOnly_def grows_refl killSnake_grows)

lemma checkSnake_killsOnly: "checkSnake all a w = Some w' \<Longrightarrow> killsOnly a w w'"
proof (cases "isDead (heap w a)")
  case True
  assume "checkSnake all a w = Some w'"
  with True show ?thesis by (simp add: checkSnake_def killsOnly_refl)
next
  case False
  assume "checkSnake all a w = Some w'"
  with False have "forEachM (checkPair a (body0 (heap w a))) all w = Some w'"
    by (simp add: checkSnake_def Let_def)
  then show ?thesis
    by (rule forEachM_rel[where R = "killsOnly a", rotated 3])
       (erule checkPair_killsOnly, rule killsOnly_refl, erule killsOnly_trans, assumption)
qed

lemma checkSnake_dead: "isDead (heap w a) \<Longrightarrow> checkSnake all a w = Some w"
  by (simp add: checkSnake_def)

lemma deadFrozen_step:
  assumes "isDead (heap w a) \<Longrightarrow> w' = w" and "\<And>b. b \<noteq> a \<Longrightarrow> heap w' b = heap w b"
  shows "deadFrozen w w'"
  unfolding deadFrozen_def using assms by metis

lemma updateBot_deadFrozen: "updateBot a w = Some w' \<Longrightarrow> deadFrozen w w'"
  by (rule deadFrozen_step[of w a]) (auto simp add: updateBot_dead dest: updateBot_other)

lemma moveSnake_deadFrozen: "moveSnake a w = Some w' \<Longrightarrow> deadFrozen w w'"
  by (rule deadFrozen_step[of w a]) (auto simp add: moveSnake_dead dest: moveSnake_other)

lemma eatSnake_deadFrozen: "eatSnake p a w = Some w' \<Longrightarrow> deadFrozen w w'"
  by (rule deadFrozen_step[of w a]) (auto simp add: eatSnake_dead dest: eatSnake_other)

lemma checkSnake_deadFrozen: "checkSnake all a w = Some w' \<Longrightarrow> deadFrozen w w'"
  by (rule deadFrozen_step[of w a])
     (auto simp add: checkSnake_dead dest: checkSnake_killsOnly simp add: killsOnly_def)

lemma checkSnake_grows: "checkSnake all a w = Some w' \<Longrightarrow> grows w w'"
  by (drule checkSnake_killsOnly) (simp add: killsOnly_def)

lemma checkSnake_botsRef: "checkSnake all a w = Some w' \<Longrightarrow> botsRef w' = botsRef w"
  by (drule checkSnake_killsOnly) (simp add: killsOnly_def)


subsection \<open>The whole tick\<close>

lemma updateCamera_simps:
  "updateCamera p w = Some w' \<Longrightarrow> heap w' = heap w \<and> foodRef w' = foodRef w"
  by (auto simp add: updateCamera_def Let_def split: if_splits option.splits)

lemma publishLeaderboard_simps [simp]:
  "heap (publishLeaderboard all w) = heap w"
  "foodRef (publishLeaderboard all w) = foodRef w"
  by (simp_all add: publishLeaderboard_def Let_def split_def)

lemma same_heap_food:
  "heap w' = heap w \<Longrightarrow> foodRef w' = foodRef w \<Longrightarrow> deadFrozen w w' \<and> grows w w'"
  by (simp add: deadFrozen_def grows_def foodPositive_def)

lemma forEachM_deadFrozen:
  assumes "\<And>a w w'. f a w = Some w' \<Longrightarrow> deadFrozen w w'"
  shows "forEachM f as w = Some w' \<Longrightarrow> deadFrozen w w'"
  by (erule forEachM_rel[where R = deadFrozen, rotated 3])
     (erule assms, rule deadFrozen_refl, erule deadFrozen_trans, assumption)

lemma forEachM_grows:
  assumes "\<And>a w w'. f a w = Some w' \<Longrightarrow> grows w w'"
  shows "forEachM f as w = Some w' \<Longrightarrow> grows w w'"
  by (erule forEachM_rel[where R = grows, rotated 3])
     (erule assms, rule grows_refl, erule grows_trans, assumption)

lemma forEachM_botsRef:
  assumes "\<And>a w w'. f a w = Some w' \<Longrightarrow> botsRef w' = botsRef w"
  shows "forEachM f as w = Some w' \<Longrightarrow> botsRef w' = botsRef w"
  by (erule forEachM_rel[where R = "\<lambda>w w'. botsRef w' = botsRef w", rotated 3])
     (erule assms, simp_all)

lemma steerStage_evolves:
  assumes "\<not> isDead (heap w p)" and "steerStage inp p w = Some w2"
  shows "deadFrozen w w2 \<and> grows w w2 \<and> botsRef w2 = botsRef w"
proof -
  let ?w1 = "steerPlayer inp p w"
  from assms(2) have f: "forEachM updateBot (botsRef ?w1) ?w1 = Some w2"
    by (simp add: steerStage_def Let_def)
  have "deadFrozen ?w1 w2" by (rule forEachM_deadFrozen[OF updateBot_deadFrozen f])
  moreover have "grows ?w1 w2" by (rule forEachM_grows[OF updateBot_grows f])
  moreover have "botsRef w2 = botsRef ?w1" by (rule forEachM_botsRef[OF updateBot_botsRef f])
  ultimately show ?thesis
    using steerPlayer_deadFrozen[OF assms(1), of inp] steerPlayer_grows[of w inp p]
    by (auto intro: deadFrozen_trans grows_trans)
qed

lemma lethalStage_evolves:
  assumes "lethalStage all w = Some w'"
  shows "deadFrozen w w' \<and> grows w w'"
  using assms unfolding lethalStage_def
  by (auto intro: forEachM_deadFrozen[OF checkSnake_deadFrozen]
                  forEachM_grows[OF checkSnake_grows])

lemma afterSteering_stages:
  assumes "afterSteering inp p w2 = Some w'"
  obtains w3 w4 w5 w7 where
    "forEachM moveSnake (p # botsRef w2) w2 = Some w3"
    "forEachM (eatSnake p) (p # botsRef w2) w3 = Some w4"
    "lethalStage (p # botsRef w2) w4 = Some w5"
    "updateCamera p (w5\<lparr>particlesRef := updateParticles (particlesRef w5)\<rparr>) = Some w7"
    "w' = publishLeaderboard (p # botsRef w2) w7"
  using assms unfolding afterSteering_def Let_def
  by (auto simp add: bind_eq_Some_conv)

lemma afterSteering_evolves:
  assumes "afterSteering inp p w2 = Some w'"
  shows "deadFrozen w2 w' \<and> grows w2 w'"
proof -
  from assms obtain w3 w4 w5 w7 where
    m: "forEachM moveSnake (p # botsRef w2) w2 = Some w3" and
    e: "forEachM (eatSnake p) (p # botsRef w2) w3 = Some w4" and
    l: "lethalStage (p # botsRef w2) w4 = Some w5" and
    c: "updateCamera p (w5\<lparr>particlesRef := updateParticles (particlesRef w5)\<rparr>) = Some w7" and
    w': "w' = publishLeaderboard (p # botsRef w2) w7"
    by (rule afterSteering_stages)
  have 1: "deadFrozen w2 w3 \<and> grows w2 w3"
    using forEachM_deadFrozen[OF moveSnake_deadFrozen m] forEachM_grows[OF moveSnake_grows m]
    by simp
  have 2: "deadFrozen w3 w4 \<and> grows w3 w4"
    using forEachM_deadFrozen[OF eatSnake_deadFrozen e] forEachM_grows[OF eatSnake_grows e]
    by simp
  have 3: "deadFrozen w4 w5 \<and> grows w4 w5" by (rule lethalStage_evolves[OF l])
  have 4: "deadFrozen w5 w' \<and> grows w5 w'"
    using updateCamera_simps[OF c] by (intro same_heap_food) (simp_all add: w')
  from 1 2 3 4 show ?thesis by (blast intro: deadFrozen_trans grows_trans)
qed

lemma update_evolves:
  assumes "update inp w = Some w'"
  shows "deadFrozen w w' \<and> grows w w'"
proof (cases "playerRef w")
  case None
  with assms have "w' = w" by (simp add: update_def)
  then show ?thesis by (simp add: deadFrozen_refl grows_refl)
next
  case (Some p)
  show ?thesis
  proof (cases "isDead (heap w p)")
    case True
    with Some assms have "w' = w" by (simp add: update_def)
    then show ?thesis by (simp add: deadFrozen_refl grows_refl)
  next
    case False
    with Some assms obtain w2 where
      s: "steerStage inp p w = Some w2" and a: "afterSteering inp p w2 = Some w'"
      by (auto simp add: update_def bind_eq_Some_conv)
    from steerStage_evolves[OF False s] afterSteering_evolves[OF a]
    show ?thesis by (blast intro: deadFrozen_trans grows_trans)
  qed
qed


subsection \<open>Death at the arena boundary\<close>

lemma moveSnake_kills:
  assumes "\<not> isDead (heap w a)" "body (heap w a) = h # rest"
    "outOfBounds (movePoint h (angle (heap w a)) (speedOf (heap w a)))"
  shows "moveSnake a w = Some (killSnake a w)"
  using assms by (simp add: moveSnake_def body0_def Let_def)

lemma forEachM_moveSnake_kills:
  assumes "forEachM moveSnake as w = Some w3" "a \<in> set as"
    "\<not> isDead (heap w a)" "body (heap w a) = h # rest"
    "outOfBounds (movePoint h (angle (heap w a)) (speedOf (heap w a)))"
  shows "isDead (heap w3 a)"
  using assms
proof (induction as arbitrary: w)
  case Nil
  then show ?case by simp
next
  case (Cons c cs)
  from Cons.prems(1) obtain w1 where
    1: "moveSnake c w = Some w1" and 2: "forEachM moveSnake cs w1 = Some w3"
    by (auto split: option.splits)
  show ?case
  proof (cases "c = a")
    case True
    with 1 moveSnake_kills[OF Cons.prems(3,4,5)] have "w1 = killSnake a w" by simp
    then have "isDead (heap w1 a)" by simp
    moreover have "deadFrozen w1 w3" by (rule forEachM_deadFrozen[OF moveSnake_deadFrozen 2])
    ultimately show ?thesis by (simp add: deadFrozen_def)
  next
    case False
    then have same: "heap w1 a = heap w a" using moveSnake_other[OF 1] by simp
    from False Cons.prems(2) have "a \<in> set cs" by simp
    from Cons.IH[OF 2 this] Cons.prems(3,4,5) show ?thesis by (simp add: same)
  qed
qed

subsection \<open>A tick completes on a sound world\<close>

lemma forEachM_total:
  assumes "\<And>a w. a \<in> set as \<Longrightarrow> I w \<Longrightarrow> \<exists>w'. f a w = Some w' \<and> I w'" and "I w"
  shows "\<exists>w'. forEachM f as w = Some w' \<and> I w'"
  using assms
proof (induction as arbitrary: w)
  case Nil
  then show ?case by simp
next
  case (Cons c cs)
  from Cons.prems(1)[of c w] Cons.prems(2) obtain w1 where 1: "f c w = Some w1" "I w1"
    by auto
  have "\<exists>w'. forEachM f cs w1 = Some w' \<and> I w'"
    by (rule Cons.IH) (auto intro: Cons.prems(1) 1)
  then show ?case using 1 by simp
qed

lemma sound_same:
  assumes "sound all w" "foodRef w' = foodRef w"
    "\<And>b. body (heap w' b) = body (heap w b)"
    "\<And>b. slength (heap w' b) = slength (heap w b)"
    "\<And>b. isDead (heap w' b) = isDead (heap w b)"
  shows "sound all w'"
  using assms by (simp add: sound_def foodPositive_def)

lemma steerPlayer_sound: "sound all w \<Longrightarrow> sound all (steerPlayer inp p w)"
  by (erule sound_same) (simp_all add: steerPlayer_def Let_def)

lemma updateBot_total:
  assumes "sound all w" "a \<in> set all"
  shows "\<exists>w'. updateBot a w = Some w' \<and> sound all w'"
proof (cases "isDead (heap w a)")
  case True
  then show ?thesis using assms by (simp add: updateBot_def)
next
  case False
  with assms have "body (heap w a) \<noteq> []" by (simp add: sound_def)
  then obtain h rest where b: "body (heap w a) = h # rest" by (cases "body (heap w a)") auto
  then have "updateBot a w = Some (randomBoost a (avoidBorders a h (wander a w)))"
    using False by (simp add: updateBot_def Let_def body0_def)
  moreover have "sound all (randomBoost a (avoidBorders a h (wander a w)))"
    by (rule sound_same[OF assms(1)]) simp_all
  ultimately show ?thesis by simp
qed

lemma killSnake_sound: "sound all w \<Longrightarrow> sound all (killSnake a w)"
  by (simp add: sound_def killSnake_positive)

lemma moveSnake_total:
  assumes "sound all w" "a \<in> set all"
  shows "\<exists>w'. moveSnake a w = Some w' \<and> sound all w'"
proof (cases "isDead (heap w a)")
  case True
  then show ?thesis using assms by (simp add: moveSnake_def)
next
  case alive: False
  with assms have nb: "body (heap w a) \<noteq> []" and len: "1 \<le> slength (heap w a)"
    and pos: "foodPositive w"
    by (simp_all add: sound_def)
  then obtain h rest where b: "body (heap w a) = h # rest" by (cases "body (heap w a)") auto
  let ?new = "movePoint h (angle (heap w a)) (speedOf (heap w a))"
  show ?thesis
  proof (cases "outOfBounds ?new")
    case True
    then show ?thesis
      using moveSnake_kills[OF alive b] killSnake_sound[OF assms(1)] by simp
  next
    case False
    let ?w1 = "modify a (\<lambda>s. s\<lparr>body := ?new # body s\<rparr>) w"
    let ?w2 = "if isBoosting (heap ?w1 a) \<and> slength (heap ?w1 a) > real INITIAL_LENGTH
               then boostCost a ?w1 else ?w1"
    have l2: "1 \<le> slength (heap ?w2 a)" using len by simp
    have b2: "body (heap ?w2 a) = ?new # h # rest" using b by simp
    have p2: "foodPositive ?w2" using pos by (simp add: boostCost_positive)
    have o2: "\<And>c. c \<noteq> a \<Longrightarrow> heap ?w2 c = heap w c" by simp
    from l2 have fl: "1 \<le> \<lfloor>slength (heap ?w2 a)\<rfloor>" by linarith
    then have mt: "maintain \<lfloor>slength (heap ?w2 a)\<rfloor> (body (heap ?w2 a))
                   = Some (take (nat \<lfloor>slength (heap ?w2 a)\<rfloor>) (body (heap ?w2 a)))"
      by (intro maintain_nonneg) simp
    let ?b' = "take (nat \<lfloor>slength (heap ?w2 a)\<rfloor>) (body (heap ?w2 a))"
    have ne: "?b' \<noteq> []" using fl by (simp only: b2) (cases "nat \<lfloor>slength (heap ?w2 a)\<rfloor>", auto)
    have res: "moveSnake a w = Some (modify a (\<lambda>s. s\<lparr>body := ?b'\<rparr>) ?w2)"
      using alive b False mt by (simp add: moveSnake_def body0_def Let_def)
    have "sound all (modify a (\<lambda>s. s\<lparr>body := ?b'\<rparr>) ?w2)"
      unfolding sound_def
    proof (intro conjI ballI impI)
      show "foodPositive (modify a (\<lambda>s. s\<lparr>body := ?b'\<rparr>) ?w2)" using p2 by simp
    next
      fix c assume c: "c \<in> set all" "\<not> isDead (heap (modify a (\<lambda>s. s\<lparr>body := ?b'\<rparr>) ?w2) c)"
      show "body (heap (modify a (\<lambda>s. s\<lparr>body := ?b'\<rparr>) ?w2) c) \<noteq> []"
      proof (cases "c = a")
        case True
        then show ?thesis using ne by simp
      next
        case False
        then show ?thesis using c assms(1) o2[OF False] by (simp add: sound_def)
      qed
      show "1 \<le> slength (heap (modify a (\<lambda>s. s\<lparr>body := ?b'\<rparr>) ?w2) c)"
      proof (cases "c = a")
        case True
        then show ?thesis using l2 by simp
      next
        case False
        then show ?thesis using c assms(1) o2[OF False] by (simp add: sound_def)
      qed
    qed
    with res show ?thesis by simp
  qed
qed


lemma grows_sound_positive: "grows w w' \<Longrightarrow> sound all w \<Longrightarrow> foodPositive w'"
  by (simp add: grows_def sound_def)

lemma eatSnake_total:
  assumes "sound all w" "a \<in> set all"
  shows "\<exists>w'. eatSnake p a w = Some w' \<and> sound all w'"
proof (cases "isDead (heap w a)")
  case True
  then show ?thesis using assms by (simp add: eatSnake_def)
next
  case alive: False
  with assms have nb: "body (heap w a) \<noteq> []" and len: "1 \<le> slength (heap w a)"
    and pos: "foodPositive w"
    by (simp_all add: sound_def)
  then obtain h rest where b: "body (heap w a) = h # rest" by (cases "body (heap w a)") auto
  let ?ov = "\<lambda>f. checkCircleCollision h (headRadiusOf (heap w a)) f (radius f)"
  from eatSnake_closed[OF alive b, of p] obtain w' where
    e: "eatSnake p a w = Some w'" and
    h: "heap w' = (heap w)(a := (heap w a)
                \<lparr>slength := slength (heap w a) + sum_list (map fvalue (filter ?ov (foodRef w))) / 10,
                 score := score (heap w a) + sum_list (map fvalue (filter ?ov (foodRef w)))\<rparr>)"
    by auto
  from pos have nn: "0 \<le> sum_list (map fvalue (filter ?ov (foodRef w)))"
    by (intro sum_list_positive_nonneg) (simp add: foodPositive_def)
  have "sound all w'"
    unfolding sound_def
  proof (intro conjI ballI impI)
    show "foodPositive w'" by (rule grows_sound_positive[OF eatSnake_grows[OF e] assms(1)])
  next
    fix c assume c: "c \<in> set all" "\<not> isDead (heap w' c)"
    then have "\<not> isDead (heap w c)" by (simp add: h split: if_splits)
    with c assms(1) have "body (heap w c) \<noteq> []" "1 \<le> slength (heap w c)"
      by (simp_all add: sound_def)
    then show "body (heap w' c) \<noteq> []" "1 \<le> slength (heap w' c)"
      using nn by (auto simp add: h)
  qed
  with e show ?thesis by simp
qed

lemma segLoop_total: "\<exists>r. segLoop (Some h) bs i = Some r"
proof (induction "Some h" bs i rule: segLoop.induct)
  case (1 bs i)
  show ?case
  proof (cases "i < length bs \<and> \<not> getDistance h (bs ! i) < 20")
    case True
    then have "segLoop (Some h) bs i = segLoop (Some h) bs (i + 2)"
      by (subst segLoop.simps) simp
    with 1 True show ?thesis by simp
  next
    case False
    then show ?thesis by (subst segLoop.simps) (auto simp add: Let_def)
  qed
qed

lemma checkPair_total:
  assumes "sound all w"
  shows "\<exists>w'. checkPair a (Some h) b w = Some w' \<and> sound all w'"
proof -
  obtain r where "segLoop (Some h) (body (heap w b)) (if a = b then 10 else 0) = Some r"
    using segLoop_total by blast
  then show ?thesis
    using assms by (simp add: checkPair_def Let_def killSnake_sound)
qed

lemma checkSnake_total:
  assumes "sound all w" "a \<in> set all"
  shows "\<exists>w'. checkSnake all' a w = Some w' \<and> sound all w'"
proof (cases "isDead (heap w a)")
  case True
  then show ?thesis using assms by (simp add: checkSnake_def)
next
  case alive: False
  with assms have "body (heap w a) \<noteq> []" by (simp add: sound_def)
  then obtain h rest where b: "body (heap w a) = h # rest" by (cases "body (heap w a)") auto
  have "\<exists>w'. forEachM (checkPair a (Some h)) all' w = Some w' \<and> sound all w'"
    by (rule forEachM_total[where I = "sound all"]) (auto intro: checkPair_total assms(1))
  then show ?thesis using alive b by (simp add: checkSnake_def body0_def Let_def)
qed

lemma updateCamera_total:
  assumes "sound all w" "p \<in> set all"
  shows "\<exists>w'. updateCamera p w = Some w'"
proof (cases "isDead (heap w p)")
  case True
  then show ?thesis by (simp add: updateCamera_def)
next
  case False
  with assms have "body (heap w p) \<noteq> []" by (simp add: sound_def)
  then obtain h rest where b: "body (heap w p) = h # rest" by (cases "body (heap w p)") auto
  then show ?thesis using False by (simp add: updateCamera_def body0_def Let_def)
qed

lemma afterSteering_total:
  assumes "sound (p # botsRef w2) w2"
  shows "\<exists>w'. afterSteering inp p w2 = Some w'"
proof -
  let ?all = "p # botsRef w2"
  obtain w3 where 3: "forEachM moveSnake ?all w2 = Some w3" "sound ?all w3"
    using forEachM_total[where I = "sound ?all" and f = moveSnake and as = ?all, OF _ assms]
      moveSnake_total by blast
  obtain w4 where 4: "forEachM (eatSnake p) ?all w3 = Some w4" "sound ?all w4"
    using forEachM_total[where I = "sound ?all" and f = "eatSnake p" and as = ?all, OF _ 3(2)]
      eatSnake_total by blast
  obtain w5 where 5: "lethalStage ?all w4 = Some w5" "sound ?all w5"
    unfolding lethalStage_def
    using forEachM_total[where I = "sound ?all" and f = "checkSnake ?all" and as = ?all, OF _ 4(2)]
      checkSnake_total by blast
  have "sound ?all (w5\<lparr>particlesRef := updateParticles (particlesRef w5)\<rparr>)"
    by (rule sound_same[OF 5(2)]) simp_all
  then obtain w7 where
    7: "updateCamera p (w5\<lparr>particlesRef := updateParticles (particlesRef w5)\<rparr>) = Some w7"
    using updateCamera_total[of ?all _ p] by auto
  show ?thesis
    using 3 4 5 7 by (simp add: afterSteering_def Let_def)
qed

lemma steerStage_total:
  assumes "sound (p # botsRef w) w"
  shows "\<exists>w2. steerStage inp p w = Some w2 \<and> sound (p # botsRef w) w2"
proof -
  let ?w1 = "steerPlayer inp p w"
  have s1: "sound (p # botsRef w) ?w1" by (rule steerPlayer_sound[OF assms])
  have "\<exists>w2. forEachM updateBot (botsRef w) ?w1 = Some w2 \<and> sound (p # botsRef w) w2"
    by (rule forEachM_total[where I = "sound (p # botsRef w)"])
       (auto intro: updateBot_total s1)
  then show ?thesis by (simp add: steerStage_def Let_def)
qed

lemma update_total:
  assumes "playerRef w = Some p" "sound (p # botsRef w) w"
  shows "\<exists>w'. update inp w = Some w'"
proof (cases "isDead (heap w p)")
  case True
  then show ?thesis using assms by (simp add: update_def)
next
  case False
  from steerStage_total[OF assms(2)] obtain w2 where
    2: "steerStage inp p w = Some w2" "sound (p # botsRef w) w2"
    by blast
  from steerStage_evolves[OF False 2(1)] have "botsRef w2 = botsRef w" by simp
  with 2(2) afterSteering_total[of p w2 inp] obtain w' where "afterSteering inp p w2 = Some w'"
    by auto
  then show ?thesis using assms(1) False 2(1) by (simp add: update_def)
qed


section \<open>Whole ticks on example worlds\<close>

lemma angleDiff_zero: "getShortestAngleDiff 0 0 = 0"
  by (simp add: getShortestAngleDiff_def js_rem_def)

lemma moveSnake_plain:
  assumes "\<not> isDead (heap w a)" "body (heap w a) = h # rest"
    "\<not> outOfBounds (movePoint h (angle (heap w a)) (speedOf (heap w a)))"
    "\<not> isBoosting (heap w a)" "0 \<le> \<lfloor>slength (heap w a)\<rfloor>"
  shows "moveSnake a w =
           Some (modify a (\<lambda>s. s\<lparr>body := take (nat \<lfloor>slength (heap w a)\<rfloor>)
                    (movePoint h (angle (heap w a)) (speedOf (heap w a)) # h # rest)\<rparr>) w)"
  using assms by (simp add: moveSnake_def body0_def Let_def maintain_nonneg modify_def)

lemma steered_heading:
  assumes "angle (heap w p) = 0"
  shows "heap (steerPlayer exampleInput p w) p = (heap w p)\<lparr>isBoosting := False\<rparr>"
  using assms
  by (simp add: steerPlayer_def Let_def exampleInput_target angleDiff_zero)
     (simp add: exampleInput_def)

lemma foodWorld_fields:
  "playerRef foodWorld = Some 0" "botsRef foodWorld = []"
  "foodRef foodWorld = [foodAt 0 0 10]"
  "heap foodWorld 0 = exampleSnake ''You'' (- 5) 0 0 False"
  by (simp_all add: foodWorld_def exampleWorld_def)

lemma exampleSnake_fields:
  "angle (exampleSnake n x y ang b) = ang" "slength (exampleSnake n x y ang b) = 10"
  "\<not> isDead (exampleSnake n x y ang b)" "score (exampleSnake n x y ang b) = 0"
  "isBoosting (exampleSnake n x y ang b) = False" "isBot (exampleSnake n x y ang b) = b"
  "length (body (exampleSnake n x y ang b)) = 10"
  "body (exampleSnake n x y ang b) \<noteq> []"
  by (simp_all add: exampleSnake_def)

lemma exampleSnake_body:
  "body (exampleSnake n x y ang b) = \<lparr>px = x, py = y\<rparr> # tl (body (exampleSnake n x y ang b))"
  by (simp add: exampleSnake_def)

lemma update_foodWorld:
  "\<exists>w'. update exampleInput foodWorld = Some w'
     \<and> length (body (heap w' 0)) = 10 \<and> slength (heap w' 0) = 11 \<and> score (heap w' 0) = 10"
proof -
  let ?S = "exampleSnake ''You'' (- 5) 0 0 False"
  let ?w1 = "steerPlayer exampleInput 0 foodWorld"
  have h1: "heap ?w1 0 = ?S"
    by (simp add: steered_heading foodWorld_fields exampleSnake_fields)
  have f1: "foodRef ?w1 = [foodAt 0 0 10]" "botsRef ?w1 = []"
    by (simp_all add: steerPlayer_def Let_def foodWorld_fields)
  have s: "steerStage exampleInput 0 foodWorld = Some ?w1"
    by (simp add: steerStage_def foodWorld_fields)
  let ?w3 = "modify 0 (\<lambda>s. s\<lparr>body := \<lparr>px = 0, py = 0\<rparr> # take 9 (body ?S)\<rparr>) ?w1"
  have a1: "\<not> isDead (heap ?w1 0)" "\<not> isBoosting (heap ?w1 0)"
    "0 \<le> \<lfloor>slength (heap ?w1 0)\<rfloor>"
    by (simp_all add: h1 exampleSnake_fields)
  have b1: "body (heap ?w1 0) = \<lparr>px = - 5, py = 0\<rparr> # tl (body ?S)"
    by (simp only: h1) (rule exampleSnake_body)
  have new: "movePoint \<lparr>px = - 5, py = 0\<rparr> (angle (heap ?w1 0)) (speedOf (heap ?w1 0))
             = \<lparr>px = 0, py = 0\<rparr>"
    by (simp add: h1 exampleSnake_fields speedOf_def movePoint_def)
  have o1: "\<not> outOfBounds (movePoint \<lparr>px = - 5, py = 0\<rparr> (angle (heap ?w1 0)) (speedOf (heap ?w1 0)))"
    by (simp only: new) (simp add: outOfBounds_def)
  have m: "moveSnake 0 ?w1 = Some ?w3"
    unfolding moveSnake_plain[OF a1(1) b1 o1 a1(2,3)] new
    by (simp add: h1 exampleSnake_fields) (simp add: exampleSnake_def)
  have b3: "body (heap ?w3 0) = \<lparr>px = 0, py = 0\<rparr> # take 9 (body ?S)"
    by simp
  have a3: "\<not> isDead (heap ?w3 0)" by (simp add: h1 exampleSnake_fields)
  have f3: "foodRef ?w3 = [foodAt 0 0 10]" by (simp add: f1)
  have ov: "checkCircleCollision \<lparr>px = 0, py = 0\<rparr> (headRadiusOf (heap ?w3 0)) (foodAt 0 0 10)
              (radius (foodAt 0 0 10))"
    by (simp add: checkCircleCollision_def getDistance_def foodAt_def headRadiusOf_def h1
        exampleSnake_fields)
  from eatSnake_closed[OF a3 b3, of 0] obtain w4 where
    e: "eatSnake 0 0 ?w3 = Some w4" and
    h4: "heap w4 = (heap ?w3)(0 := (heap ?w3 0)\<lparr>slength := slength (heap ?w3 0) + 10 / 10,
                                                score := score (heap ?w3 0) + 10\<rparr>)"
    unfolding f3 using ov by (auto simp add: foodAt_def)
  have b4: "body (heap w4 0) = \<lparr>px = 0, py = 0\<rparr> # take 9 (body ?S)"
    by (simp add: h4 b3)
  have len4: "length (body (heap w4 0)) = 10" by (simp add: b4 exampleSnake_fields)
  have "segLoop (Some \<lparr>px = 0, py = 0\<rparr>) (body (heap w4 0)) 10 = Some False"
    by (subst segLoop.simps) (simp add: len4)
  then have l: "lethalStage [0] w4 = Some w4"
    by (simp add: lethalStage_def checkSnake_def checkPair_def Let_def body0_def b4 h4 h1
        exampleSnake_fields)
  let ?w6 = "w4\<lparr>particlesRef := updateParticles (particlesRef w4)\<rparr>"
  have "\<exists>w7. updateCamera 0 ?w6 = Some w7"
    by (simp add: updateCamera_def body0_def b4 Let_def)
  then obtain w7 where c: "updateCamera 0 ?w6 = Some w7" by blast
  have h7: "heap w7 = heap w4" using updateCamera_simps[OF c] by simp
  have u: "update exampleInput foodWorld = Some (publishLeaderboard [0] w7)"
    by (simp add: update_def foodWorld_fields exampleSnake_fields s afterSteering_def f1 m e l c
        Let_def)
  show ?thesis
    by (rule exI[of _ "publishLeaderboard [0] w7"])
       (simp add: u h7 len4, simp add: h4 h1 exampleSnake_fields)
qed


lemma edgeWorld_fields:
  "playerRef edgeWorld = Some 0" "botsRef edgeWorld = [1]" "foodRef edgeWorld = []"
  "heap edgeWorld 0 = exampleSnake ''You'' 1998 0 0 False"
  "heap edgeWorld 1 = (exampleSnake ''Bot 1'' 0 0 0 True)\<lparr>isDead := True\<rparr>"
  "heap edgeWorld (Suc 0) = (exampleSnake ''Bot 1'' 0 0 0 True)\<lparr>isDead := True\<rparr>"
  by (simp_all add: edgeWorld_def exampleWorld_def)

lemma update_edgeWorld:
  "\<exists>w'. update exampleInput edgeWorld = Some w'"
proof (rule update_total[of edgeWorld 0])
  show "playerRef edgeWorld = Some 0" by (simp add: edgeWorld_fields)
  show "sound (0 # botsRef edgeWorld) edgeWorld"
    by (simp add: sound_def foodPositive_def edgeWorld_fields exampleSnake_fields)
qed

lemma edgeWorld_steered:
  "steerStage exampleInput 0 edgeWorld = Some (steerPlayer exampleInput 0 edgeWorld)"
  "heap (steerPlayer exampleInput 0 edgeWorld) 0 = exampleSnake ''You'' 1998 0 0 False"
proof -
  show h: "heap (steerPlayer exampleInput 0 edgeWorld) 0 = exampleSnake ''You'' 1998 0 0 False"
    by (simp add: steered_heading edgeWorld_fields exampleSnake_fields)
  have "heap (steerPlayer exampleInput 0 edgeWorld) 1 = heap edgeWorld 1"
    by (simp add: steerPlayer_def Let_def)
  then show "steerStage exampleInput 0 edgeWorld = Some (steerPlayer exampleInput 0 edgeWorld)"
    by (simp add: steerStage_def edgeWorld_fields updateBot_def)
qed

section \<open>Death at the boundary, and the dead stay as they are\<close>

text \<open>
  C6: let a tick complete. (1) The object of a snake that is dead when the tick starts is
  the same afterwards: the snake is still dead and its body segments, like all its other
  fields, are unchanged. (2) Let \<open>w2\<close> be the world after the two steering
  stages, in which motion integration starts: a living snake of \<open>[player, ...bots]\<close> whose
  new head \<open>movePoint head angle speed\<close> lies outside the arena is marked dead when the
  tick ends.
\<close>

theorem boundary_death_and_dead_frozen:
  assumes "update inp w = Some w'"
  shows "(\<forall>b. isDead (heap w b) \<longrightarrow> heap w' b = heap w b)
       \<and> (\<forall>p w2 a h rest.
             playerRef w = Some p \<and> \<not> isDead (heap w p) \<and> steerStage inp p w = Some w2
             \<and> a \<in> set (p # botsRef w) \<and> \<not> isDead (heap w2 a) \<and> body (heap w2 a) = h # rest
             \<and> outOfBounds (movePoint h (angle (heap w2 a)) (speedOf (heap w2 a)))
             \<longrightarrow> isDead (heap w' a))"
proof (rule conjI; intro allI impI)
  fix b
  assume "isDead (heap w b)"
  with update_evolves[OF assms] show "heap w' b = heap w b" by (simp add: deadFrozen_def)
next
  fix p w2 a h rest
  assume H: "playerRef w = Some p \<and> \<not> isDead (heap w p) \<and> steerStage inp p w = Some w2
             \<and> a \<in> set (p # botsRef w) \<and> \<not> isDead (heap w2 a) \<and> body (heap w2 a) = h # rest
             \<and> outOfBounds (movePoint h (angle (heap w2 a)) (speedOf (heap w2 a)))"
  then have a: "afterSteering inp p w2 = Some w'"
    using assms by (simp add: update_def)
  from H steerStage_evolves[of w p inp w2] have b: "botsRef w2 = botsRef w" by simp
  from a obtain w3 w4 w5 w7 where
    m: "forEachM moveSnake (p # botsRef w2) w2 = Some w3" and
    e: "forEachM (eatSnake p) (p # botsRef w2) w3 = Some w4" and
    l: "lethalStage (p # botsRef w2) w4 = Some w5" and
    c: "updateCamera p (w5\<lparr>particlesRef := updateParticles (particlesRef w5)\<rparr>) = Some w7" and
    w': "w' = publishLeaderboard (p # botsRef w2) w7"
    by (rule afterSteering_stages)
  have d3: "isDead (heap w3 a)"
    using forEachM_moveSnake_kills[OF m, of a h rest] H b by simp
  have "deadFrozen w3 w4" by (rule forEachM_deadFrozen[OF eatSnake_deadFrozen e])
  moreover have "deadFrozen w4 w5" using lethalStage_evolves[OF l] by simp
  moreover have "heap w' = heap w5" using updateCamera_simps[OF c] by (simp add: w')
  ultimately show "isDead (heap w' a)" using d3 by (simp add: deadFrozen_def)
qed

theorem boundary_death_and_dead_frozen_witness:
  "update exampleInput edgeWorld \<noteq> None
   \<and> isDead (heap edgeWorld 1)
   \<and> body (heap (the (update exampleInput edgeWorld)) 1) = body (heap edgeWorld 1)
   \<and> \<not> isDead (heap edgeWorld 0)
   \<and> isDead (heap (the (update exampleInput edgeWorld)) 0)"
proof -
  let ?w' = "the (update exampleInput edgeWorld)"
  let ?w2 = "steerPlayer exampleInput 0 edgeWorld"
  have u: "update exampleInput edgeWorld = Some ?w'" using update_edgeWorld by auto
  have d1: "isDead (heap edgeWorld 1)"
    by (simp add: edgeWorld_fields)
  have hyp: "playerRef edgeWorld = Some 0 \<and> \<not> isDead (heap edgeWorld 0)
      \<and> steerStage exampleInput 0 edgeWorld = Some ?w2
      \<and> 0 \<in> set (0 # botsRef edgeWorld) \<and> \<not> isDead (heap ?w2 0)
      \<and> body (heap ?w2 0) = \<lparr>px = 1998, py = 0\<rparr> # tl (body (exampleSnake ''You'' 1998 0 0 False))
      \<and> outOfBounds (movePoint \<lparr>px = 1998, py = 0\<rparr> (angle (heap ?w2 0)) (speedOf (heap ?w2 0)))"
    using exampleSnake_body[of "''You''" 1998 0 0 False]
    by (simp add: edgeWorld_steered edgeWorld_fields exampleSnake_fields speedOf_def
        movePoint_def outOfBounds_def)
  from boundary_death_and_dead_frozen[OF u] d1 hyp
  have "heap ?w' 1 = heap edgeWorld 1" and "isDead (heap ?w' 0)" by blast+
  moreover have "update exampleInput edgeWorld \<noteq> None" using update_edgeWorld by auto
  ultimately show ?thesis using d1 hyp by simp
qed

section \<open>Scores never decrease\<close>

text \<open>
  C8: in a world whose consumables all carry a positive value, a completed tick decreases
  no snake's score, and all consumables of the resulting world carry a positive value
  again (so the statement applies to every following tick).
\<close>

theorem score_never_decreases:
  assumes "update inp w = Some w'" and "\<forall>f \<in> set (foodRef w). 0 < fvalue f"
  shows "score (heap w a) \<le> score (heap w' a) \<and> (\<forall>f \<in> set (foodRef w'). 0 < fvalue f)"
  using update_evolves[OF assms(1)] assms(2) by (simp add: grows_def foodPositive_def)

theorem score_never_decreases_witness:
  "foodRef foodWorld = [foodAt 0 0 10] \<and> 0 < fvalue (foodAt 0 0 10)
   \<and> update exampleInput foodWorld \<noteq> None
   \<and> score (heap foodWorld 0) \<le> score (heap (the (update exampleInput foodWorld)) 0)"
proof -
  have u: "update exampleInput foodWorld = Some (the (update exampleInput foodWorld))"
    using update_foodWorld by auto
  have p: "\<forall>f \<in> set (foodRef foodWorld). 0 < fvalue f"
    by (simp add: foodWorld_fields foodAt_def)
  have n: "update exampleInput foodWorld \<noteq> None" using update_foodWorld by auto
  have q: "foodRef foodWorld = [foodAt 0 0 10] \<and> 0 < fvalue (foodAt 0 0 10)"
    by (simp add: foodWorld_fields foodAt_def)
  from score_never_decreases[OF u p, of 0] q n show ?thesis by blast
qed

section \<open>Segment count and target length\<close>





section \<open>Consumption\<close>





section \<open>The published score follows the player's score\<close>

lemma scoreShown_same:
  "scoreRef w' = scoreRef w \<Longrightarrow> score (heap w' p) = score (heap w p)
   \<Longrightarrow> scoreShown p w \<Longrightarrow> scoreShown p w'"
  by (simp add: scoreShown_def)

lemma steering_scoreRef [simp]:
  "scoreRef (steerPlayer inp p w) = scoreRef w"
  "scoreRef (wander a w) = scoreRef w"
  "scoreRef (avoidBorders a h w) = scoreRef w"
  "scoreRef (randomBoost a w) = scoreRef w"
  by (simp_all add: steerPlayer_def wander_def avoidBorders_def randomBoost_def Let_def split_def)

lemma updateBot_scoreRef: "updateBot a w = Some w' \<Longrightarrow> scoreRef w' = scoreRef w"
  by (auto simp add: updateBot_def Let_def split: if_splits option.splits)

lemma updateBot_score: "updateBot a w = Some w' \<Longrightarrow> score (heap w' b) = score (heap w b)"
  by (auto simp add: updateBot_def Let_def split: if_splits option.splits)

lemma boostCost_scoreRef [simp]: "scoreRef (boostCost a w) = scoreRef w"
  by (simp add: boostCost_def Let_def split_def)

lemma moveSnake_scoreRef: "moveSnake a w = Some w' \<Longrightarrow> scoreRef w' = scoreRef w"
  by (auto simp add: moveSnake_def Let_def split: if_splits option.splits)

lemma eatLoop_scoreShown:
  "eatLoop p a hA r n w = Some w' \<Longrightarrow> scoreShown p w \<Longrightarrow> scoreShown p w'"
proof (induction n arbitrary: w)
  case 0
  then show ?case by simp
next
  case (Suc i)
  from Suc.prems(1) obtain h where h: "hA = Some h" by (cases hA) auto
  let ?f = "foodRef w ! i"
  show ?case
  proof (cases "checkCircleCollision h r ?f (radius ?f)")
    case False
    with Suc.prems h have "eatLoop p a hA r i w = Some w'" by (simp add: Let_def)
    from Suc.IH[OF this Suc.prems(2)] show ?thesis .
  next
    case True
    define w4 where "w4 =
       (let w1 = modify a (\<lambda>s. s\<lparr>slength := slength s + fvalue ?f / 10\<rparr>) w;
            w2 = modify a (\<lambda>s. s\<lparr>score := score s + fvalue ?f\<rparr>) w1;
            w3 = (if a = p
                  then (let v = real_of_int \<lfloor>score (heap w2 a)\<rfloor>
                        in w2\<lparr>scoreRef := v, setScoreLog := setScoreLog w2 @ [v]\<rparr>)
                  else w2)
        in w3\<lparr>foodRef := take i (foodRef w3) @ drop (Suc i) (foodRef w3)\<rparr>)"
    have step: "eatLoop p a hA r i w4 = Some w'"
      using Suc.prems(1) True h by (simp add: Let_def w4_def)
    have "scoreShown p w4"
      using Suc.prems(2) by (simp add: scoreShown_def w4_def Let_def)
    from Suc.IH[OF step this] show ?thesis .
  qed
qed

lemma respawnFood_scoreRef [simp]: "scoreRef (respawnFood w) = scoreRef w"
  by (simp add: respawnFood_def Let_def split_def)

lemma eatSnake_scoreShown:
  "eatSnake p a w = Some w' \<Longrightarrow> scoreShown p w \<Longrightarrow> scoreShown p w'"
  by (auto simp add: eatSnake_def Let_def scoreShown_def
      split: if_splits option.splits dest!: eatLoop_scoreShown)

lemma checkSnake_scoreShown:
  "checkSnake all a w = Some w' \<Longrightarrow> scoreShown p w \<Longrightarrow> scoreShown p w'"
proof -
  have pair: "checkPair a hA b w = Some w' \<Longrightarrow> scoreShown p w \<longrightarrow> scoreShown p w'" for hA b w w'
    by (drule checkPair_cases) (auto simp add: scoreShown_def)
  have pairs: "forEachM (checkPair a hA) bs w = Some w' \<Longrightarrow> scoreShown p w \<longrightarrow> scoreShown p w'"
    for hA bs w w'
    by (rule forEachM_rel[where R = "\<lambda>w w'. scoreShown p w \<longrightarrow> scoreShown p w'", rotated 3])
       (assumption, erule pair, simp_all)
  assume "checkSnake all a w = Some w'" "scoreShown p w"
  then show ?thesis
    using pairs by (auto simp add: checkSnake_def Let_def split: if_splits)
qed

lemma forEachM_scoreShown:
  assumes "\<And>a w w'. f a w = Some w' \<Longrightarrow> scoreShown p w \<Longrightarrow> scoreShown p w'"
  shows "forEachM f as w = Some w' \<Longrightarrow> scoreShown p w \<Longrightarrow> scoreShown p w'"
proof -
  assume "forEachM f as w = Some w'"
  then have "scoreShown p w \<longrightarrow> scoreShown p w'"
    by (rule forEachM_rel[where R = "\<lambda>w w'. scoreShown p w \<longrightarrow> scoreShown p w'", rotated 3])
       (auto dest: assms)
  then show "scoreShown p w \<Longrightarrow> scoreShown p w'" by simp
qed

lemma updateCamera_scoreRef: "updateCamera p w = Some w' \<Longrightarrow> scoreRef w' = scoreRef w"
  by (auto simp add: updateCamera_def Let_def split: if_splits option.splits)

lemma publishLeaderboard_scoreRef [simp]:
  "scoreRef (publishLeaderboard all w) = scoreRef w"
  by (simp add: publishLeaderboard_def Let_def split_def)

lemma update_scoreShown:
  assumes "update inp w = Some w'" "playerRef w = Some p" "scoreShown p w"
  shows "scoreShown p w'"
proof (cases "isDead (heap w p)")
  case True
  with assms show ?thesis by (simp add: update_def)
next
  case False
  with assms obtain w2 where
    s: "steerStage inp p w = Some w2" and a: "afterSteering inp p w2 = Some w'"
    by (auto simp add: update_def bind_eq_Some_conv)
  let ?w1 = "steerPlayer inp p w"
  have 1: "scoreShown p ?w1"
    using assms(3) by (simp add: scoreShown_def steerPlayer_def Let_def)
  from s have "forEachM updateBot (botsRef ?w1) ?w1 = Some w2" by (simp add: steerStage_def Let_def)
  then have 2: "scoreShown p w2"
    by (rule forEachM_scoreShown[rotated])
       (auto intro: 1 scoreShown_same dest: updateBot_scoreRef updateBot_score)
  from a obtain w3 w4 w5 w7 where
    m: "forEachM moveSnake (p # botsRef w2) w2 = Some w3" and
    e: "forEachM (eatSnake p) (p # botsRef w2) w3 = Some w4" and
    l: "lethalStage (p # botsRef w2) w4 = Some w5" and
    c: "updateCamera p (w5\<lparr>particlesRef := updateParticles (particlesRef w5)\<rparr>) = Some w7" and
    w': "w' = publishLeaderboard (p # botsRef w2) w7"
    by (rule afterSteering_stages)
  have 3: "scoreShown p w3"
    using m by (rule forEachM_scoreShown[rotated])
       (auto intro: 2 scoreShown_same dest: moveSnake_scoreRef moveSnake_score)
  have 4: "scoreShown p w4"
    using e by (rule forEachM_scoreShown[rotated]) (auto intro: 3 eatSnake_scoreShown)
  have 5: "scoreShown p w5"
    using l unfolding lethalStage_def
    by (rule forEachM_scoreShown[rotated]) (auto intro: 4 checkSnake_scoreShown)
  show ?thesis
    using 5 updateCamera_scoreRef[OF c] updateCamera_simps[OF c]
    by (simp add: scoreShown_def w')
qed

section \<open>Killing a snake\<close>



lemma indexOf_Some: "indexOf a bs = Some idx \<Longrightarrow> idx < length bs \<and> bs ! idx = a"
  by (induction bs arbitrary: idx) (auto split: if_splits)



lemma killSnake_logs:
  "timers (killSnake a w) = (if isBot (heap w a) then timers w @ [a] else timers w)"
  "gameOverLog (killSnake a w)
     = (if isBot (heap w a) then gameOverLog w else gameOverLog w @ [scoreRef w])"
  by (simp_all add: killSnake_def Let_def)







section \<open>Coincident heads\<close>

lemma forEachM_append:
  "forEachM f (xs @ ys) w = (case forEachM f xs w of None \<Rightarrow> None | Some w1 \<Rightarrow> forEachM f ys w1)"
  by (induction xs arbitrary: w) (auto split: option.splits)

lemma checkPairs_killsOnly:
  "forEachM (checkPair a hA) bs w = Some w' \<Longrightarrow> killsOnly a w w'"
  by (rule forEachM_rel[where R = "killsOnly a", rotated 3])
     (assumption, erule checkPair_killsOnly, rule killsOnly_refl, erule killsOnly_trans, assumption)

lemma killsOnly_dead: "killsOnly a w w' \<Longrightarrow> isDead (heap w a) \<Longrightarrow> isDead (heap w' a)"
  by (auto simp add: killsOnly_def)

lemma checkSnakes_untouched:
  "forEachM (checkSnake all) cs w = Some w' \<Longrightarrow> x \<notin> set cs \<Longrightarrow> heap w' x = heap w x"
proof (induction cs arbitrary: w)
  case Nil
  then show ?case by simp
next
  case (Cons c cs)
  from Cons.prems(1) obtain w1 where
    1: "checkSnake all c w = Some w1" and 2: "forEachM (checkSnake all) cs w1 = Some w'"
    by (auto split: option.splits)
  from checkSnake_killsOnly[OF 1] Cons.prems(2) have "heap w1 x = heap w x"
    by (simp add: killsOnly_def)
  with Cons.IH[OF 2] Cons.prems(2) show ?case by simp
qed

lemma segLoop_coincident:
  assumes "px h = px hb" "py h = py hb"
  shows "segLoop (Some h) (hb # rb) 0 = Some True"
  using assms by (subst segLoop.simps) (simp add: getDistance_def)

lemma checkPairs_coincident:
  assumes "forEachM (checkPair a (Some h)) bs w = Some w'" "b \<in> set bs" "b \<noteq> a"
    "\<not> isDead (heap w b)" "body (heap w b) = hb # rb" "px h = px hb" "py h = py hb"
  shows "isDead (heap w' a)"
  using assms(1,2,4,5)
proof (induction bs arbitrary: w)
  case Nil
  then show ?case by simp
next
  case (Cons c cs)
  from Cons.prems(1) obtain w1 where
    1: "checkPair a (Some h) c w = Some w1" and 2: "forEachM (checkPair a (Some h)) cs w1 = Some w'"
    by (auto split: option.splits)
  have same: "heap w1 b = heap w b"
    using checkPair_killsOnly[OF 1] assms(3) by (simp add: killsOnly_def)
  show ?case
  proof (cases "c = b")
    case True
    have "w1 = killSnake a w"
      using 1 True Cons.prems(3,4) assms(3) segLoop_coincident[OF assms(6,7), of rb]
      by (simp add: checkPair_def Let_def)
    then have "isDead (heap w1 a)" by simp
    with checkPairs_killsOnly[OF 2] show ?thesis by (rule killsOnly_dead)
  next
    case False
    with Cons.prems(2) have "b \<in> set cs" by simp
    from Cons.IH[OF 2 this] Cons.prems(3,4) show ?thesis by (simp add: same)
  qed
qed

lemma segLoop_end: "\<not> i < length bs \<Longrightarrow> segLoop hA bs i = Some False"
  by (subst segLoop.simps) simp

lemma duelWorld_fields:
  "heap duelWorld 0 = exampleSnake ''You'' 0 0 0 False"
  "heap duelWorld 1 = exampleSnake ''Bot 1'' 0 0 0 True"
  "heap duelWorld (Suc 0) = exampleSnake ''Bot 1'' 0 0 0 True"
  by (simp_all add: duelWorld_def exampleWorld_def)

lemma exampleSnake_body0:
  "body0 (exampleSnake n x y ang b) = Some \<lparr>px = x, py = y\<rparr>"
  by (simp add: body0_def exampleSnake_def)

lemma getDistance_less_20:
  "getDistance p q < 20 \<longleftrightarrow> (px q - px p) ^ 2 + (py q - py p) ^ 2 < 400"
proof -
  have "sqrt 400 = 20" by (rule real_sqrt_unique) simp_all
  then show ?thesis
    using real_sqrt_less_iff[of "(px q - px p) ^ 2 + (py q - py p) ^ 2" 400]
    by (simp add: getDistance_def)
qed

lemma segLoop_step:
  "i < length bs \<Longrightarrow>
   segLoop (Some h) bs i
     = (if getDistance h (bs ! i) < 20 then Some True else segLoop (Some h) bs (i + 2))"
  by (subst segLoop.simps) (simp add: Let_def)

lemma segLoop_ten:
  assumes "length bs = 10"
  shows "segLoop (Some h) bs 0
         = Some (getDistance h (bs ! 0) < 20 \<or> getDistance h (bs ! 2) < 20
                 \<or> getDistance h (bs ! 4) < 20 \<or> getDistance h (bs ! 6) < 20
                 \<or> getDistance h (bs ! 8) < 20)"
proof -
  have e: "segLoop (Some h) bs 10 = Some False" by (rule segLoop_end) (simp add: assms)
  have 8: "segLoop (Some h) bs 8 = Some (getDistance h (bs ! 8) < 20)"
    using segLoop_step[of 8 bs h] e by (simp add: assms)
  have 6: "segLoop (Some h) bs 6 = Some (getDistance h (bs ! 6) < 20 \<or> getDistance h (bs ! 8) < 20)"
    using segLoop_step[of 6 bs h] 8 by (simp add: assms)
  have 4: "segLoop (Some h) bs 4 = Some (getDistance h (bs ! 4) < 20
      \<or> getDistance h (bs ! 6) < 20 \<or> getDistance h (bs ! 8) < 20)"
    using segLoop_step[of 4 bs h] 6 by (simp add: assms)
  have 2: "segLoop (Some h) bs 2 = Some (getDistance h (bs ! 2) < 20 \<or> getDistance h (bs ! 4) < 20
      \<or> getDistance h (bs ! 6) < 20 \<or> getDistance h (bs ! 8) < 20)"
    using segLoop_step[of 2 bs h] 4 by (simp add: assms)
  show ?thesis
    using segLoop_step[of 0 bs h, unfolded add_0_left] 2 by (simp add: assms)
qed

lemma exampleSnake_segLoop:
  "segLoop (Some h) (body (exampleSnake n x y ang b)) 0
   = Some ((x - px h) * (x - px h) + (y - py h) * (y - py h) < 400
           \<or> (x - 10 - px h) * (x - 10 - px h) + (y - py h) * (y - py h) < 400
           \<or> (x - 20 - px h) * (x - 20 - px h) + (y - py h) * (y - py h) < 400
           \<or> (x - 30 - px h) * (x - 30 - px h) + (y - py h) * (y - py h) < 400
           \<or> (x - 40 - px h) * (x - 40 - px h) + (y - py h) * (y - py h) < 400)"
  by (subst segLoop_ten) (simp_all add: exampleSnake_def getDistance_less_20 power2_eq_square)

lemma exampleSnake_self:
  "segLoop (Some h) (body (exampleSnake n x y ang b)) 10 = Some False"
  by (rule segLoop_end) (simp add: exampleSnake_fields)

lemma lethalStage_duelWorld: "lethalStage [0, 1] duelWorld = Some (killSnake 0 duelWorld)"
proof -
  let ?h = "\<lparr>px = 0, py = 0\<rparr> :: point"
  have self: "segLoop (Some ?h) (body (exampleSnake n x y ang b)) 10 = Some False" for n x y ang b
    by (rule segLoop_end) (simp add: exampleSnake_fields)
  have hit: "segLoop (Some ?h) (body (exampleSnake ''Bot 1'' 0 0 0 True)) 0 = Some True"
    by (subst exampleSnake_body) (rule segLoop_coincident, simp_all)
  have first: "checkSnake [0, 1] 0 duelWorld = Some (killSnake 0 duelWorld)"
    by (simp add: checkSnake_def checkPair_def Let_def duelWorld_fields exampleSnake_fields
        exampleSnake_body0 self hit)
  have second: "checkSnake [0, 1] 1 (killSnake 0 duelWorld) = Some (killSnake 0 duelWorld)"
    by (simp add: checkSnake_def checkPair_def Let_def duelWorld_fields exampleSnake_fields
        exampleSnake_body0 self)
  show ?thesis by (simp only: lethalStage_def forEachM.simps first second option.case)
qed

lemma trioWorld_fields:
  "heap trioWorld 0 = exampleSnake ''You'' 0 0 0 False"
  "heap trioWorld 1 = exampleSnake ''Bot 1'' 0 0 0 True"
  "heap trioWorld (Suc 0) = exampleSnake ''Bot 1'' 0 0 0 True"
  "heap trioWorld 2 = exampleSnake ''Bot 2'' 500 0 0 True"
  by (simp_all add: trioWorld_def exampleWorld_def)

lemma lethalStage_trioWorld: "lethalStage [0, 1, 2] trioWorld = Some (killSnake 0 trioWorld)"
proof -
  let ?K = "killSnake 0 trioWorld"
  have first: "checkSnake [0, 1, 2] 0 trioWorld = Some ?K"
    by (simp add: checkSnake_def checkPair_def Let_def trioWorld_fields exampleSnake_fields
        exampleSnake_body0 exampleSnake_self exampleSnake_segLoop)
  have second: "checkSnake [0, 1, 2] 1 ?K = Some ?K"
    by (simp add: checkSnake_def checkPair_def Let_def trioWorld_fields exampleSnake_fields
        exampleSnake_body0 exampleSnake_self exampleSnake_segLoop)
  have third: "checkSnake [0, 1, 2] 2 ?K = Some ?K"
    by (simp add: checkSnake_def checkPair_def Let_def trioWorld_fields exampleSnake_fields
        exampleSnake_body0 exampleSnake_self exampleSnake_segLoop)
  show ?thesis
    by (simp only: lethalStage_def forEachM.simps first second third option.case)
qed

lemma checkSnakes_first_dies:
  assumes "forEachM (checkSnake all) (pre @ a # post) w = Some w1"
    and "a \<notin> set pre" and "b \<notin> set pre" and "b \<in> set all" and "b \<noteq> a"
    and "\<not> isDead (heap w a)" and "\<not> isDead (heap w b)"
    and "body (heap w a) = ha # ra" and "body (heap w b) = hb # rb"
    and "px ha = px hb" and "py ha = py hb"
  shows "isDead (heap w1 a)"
proof -
  from assms(1) obtain u1 u2 where
    1: "forEachM (checkSnake all) pre w = Some u1" and
    2: "checkSnake all a u1 = Some u2" and
    3: "forEachM (checkSnake all) post u2 = Some w1"
    by (auto simp add: forEachM_append split: option.splits)
  have sa: "heap u1 a = heap w a" by (rule checkSnakes_untouched[OF 1 assms(2)])
  have sb: "heap u1 b = heap w b" by (rule checkSnakes_untouched[OF 1 assms(3)])
  from 2 have "forEachM (checkPair a (Some ha)) all u1 = Some u2"
    using assms(6,8) by (simp add: checkSnake_def Let_def body0_def sa)
  from checkPairs_coincident[OF this assms(4,5), of hb rb] assms(7,9,10,11)
  have "isDead (heap u2 a)" by (simp add: sb)
  moreover have "deadFrozen u2 w1"
    by (rule forEachM_deadFrozen[OF checkSnake_deadFrozen 3])
  ultimately show ?thesis by (simp add: deadFrozen_def)
qed

lemma checkSnakes_bodies:
  assumes "forEachM (checkSnake all) cs w = Some w'"
  shows "body (heap w' c) = body (heap w c) \<and> (isDead (heap w c) \<longrightarrow> isDead (heap w' c))"
proof -
  have "\<forall>c. body (heap w' c) = body (heap w c) \<and> (isDead (heap w c) \<longrightarrow> isDead (heap w' c))"
    using assms
  proof (rule forEachM_rel[where R = "\<lambda>w w'. \<forall>c. body (heap w' c) = body (heap w c)
                \<and> (isDead (heap w c) \<longrightarrow> isDead (heap w' c))", rotated 3])
    fix a w w'
    assume "checkSnake all a w = Some w'"
    then have k: "killsOnly a w w'" by (rule checkSnake_killsOnly)
    show "\<forall>c. body (heap w' c) = body (heap w c) \<and> (isDead (heap w c) \<longrightarrow> isDead (heap w' c))"
    proof
      fix c
      from k have "heap w' c = heap w c \<or> heap w' c = (heap w c)\<lparr>isDead := True\<rparr>"
        unfolding killsOnly_def by (cases "c = a") auto
      then show "body (heap w' c) = body (heap w c) \<and> (isDead (heap w c) \<longrightarrow> isDead (heap w' c))"
        by auto
    qed
  qed simp_all
  then show ?thesis by simp
qed

lemma checkPairs_no_hit:
  assumes "forEachM (checkPair b hB) cs w = Some w'"
    and "\<forall>c \<in> set cs. isDead (heap w c)
            \<or> segLoop hB (body (heap w c)) (if b = c then 10 else 0) = Some False"
  shows "w' = w"
  using assms
proof (induction cs)
  case Nil
  then show ?case by simp
next
  case (Cons c cs)
  have "checkPair b hB c w = Some w"
    using Cons.prems(2) by (auto simp add: checkPair_def Let_def)
  with Cons show ?case by simp
qed


text \<open>
  C3, as stated, fails. In \<open>duelWorld\<close> the player (evaluated first) and the bot (evaluated
  second) are alive with coincident heads. The lethal-collision stage kills the player, at
  the bot's head segment; when the bot's turn comes the player is dead and is skipped as
  an obstacle, so the bot, the creature evaluated second, survives.
\<close>

theorem coincident_heads_second_survives_counterexample:
  "\<not> isDead (heap duelWorld 0) \<and> \<not> isDead (heap duelWorld 1)
   \<and> body0 (heap duelWorld 0) = body0 (heap duelWorld 1)
   \<and> lethalStage [0, 1] duelWorld = Some (killSnake 0 duelWorld)
   \<and> \<not> isDead (heap (killSnake 0 duelWorld) 1)"
  using lethalStage_duelWorld
  by (simp add: duelWorld_fields exampleSnake_fields exampleSnake_body0)

text \<open>
  C3, amended: let two living creatures at positions \<open>i < j\<close> of the array
  \<open>[player, ...bots]\<close> (pairwise distinct objects) have coincident head positions at the
  start of the lethal-collision stage, and let the stage complete. Then (1) the stage kills
  the creature evaluated first, the one at position \<open>i\<close>; and (2) the creature evaluated
  later, the one at position \<open>j\<close>, is alive after the stage, provided that every creature
  of the array other than the first one is dead at the start of the stage or has none of
  its sampled segments (every second segment, from index 10 of the later creature's own
  body and from index 0 of any other body) within 20 units of the later creature's head:
  the first creature, dead by then, is skipped as an obstacle, so the coincidence does not
  kill the later one.
\<close>

theorem coincident_heads_first_dies:
  assumes "lethalStage all w = Some w'" and "distinct all" and "i < j" and "j < length all"
    and "\<not> isDead (heap w (all ! i))" and "\<not> isDead (heap w (all ! j))"
    and "body (heap w (all ! i)) = hi # ri" and "body (heap w (all ! j)) = hj # rj"
    and "px hi = px hj" and "py hi = py hj"
  shows "isDead (heap w' (all ! i))
       \<and> ((\<forall>c \<in> set all. c \<noteq> all ! i \<longrightarrow>
              isDead (heap w c)
              \<or> segLoop (Some hj) (body (heap w c)) (if all ! j = c then 10 else 0) = Some False)
            \<longrightarrow> \<not> isDead (heap w' (all ! j)))"
proof (rule conjI)
  let ?a = "all ! i" and ?b = "all ! j"
  have i: "i < length all" using assms(3,4) by simp
  have ab: "?b \<noteq> ?a"
    using assms(2,3,4) i by (simp add: nth_eq_iff_index_eq)
  have b_in: "?b \<in> set all" using assms(4) by simp
  have not_before: "all ! k \<notin> set (take k all)" if "k < length all" for k
  proof
    assume "all ! k \<in> set (take k all)"
    then obtain m where "m < k" "all ! m = all ! k"
      using that by (auto simp add: in_set_conv_nth)
    with assms(2) that show False by (simp add: nth_eq_iff_index_eq)
  qed
  have b_pre: "?b \<notin> set (take i all)"
  proof
    assume "?b \<in> set (take i all)"
    then obtain k where "k < i" "all ! k = ?b"
      using i by (auto simp add: in_set_conv_nth)
    with assms(2,3,4) show False by (simp add: nth_eq_iff_index_eq)
  qed
  have split_i: "all = take i all @ ?a # drop (Suc i) all"
    using i by (simp add: id_take_nth_drop)
  have whole: "forEachM (checkSnake all) (take i all @ ?a # drop (Suc i) all) w = Some w'"
    using assms(1) split_i by (simp add: lethalStage_def)
  show first: "isDead (heap w' ?a)"
    by (rule checkSnakes_first_dies[OF whole not_before[OF i] b_pre b_in ab assms(5,6,7,8,9,10)])
  show "(\<forall>c \<in> set all. c \<noteq> ?a \<longrightarrow>
              isDead (heap w c)
              \<or> segLoop (Some hj) (body (heap w c)) (if ?b = c then 10 else 0) = Some False)
            \<longrightarrow> \<not> isDead (heap w' ?b)"
  proof
    assume clear: "\<forall>c \<in> set all. c \<noteq> ?a \<longrightarrow>
              isDead (heap w c)
              \<or> segLoop (Some hj) (body (heap w c)) (if ?b = c then 10 else 0) = Some False"
    have split_j: "all = take j all @ ?b # drop (Suc j) all"
      using assms(4) by (simp add: id_take_nth_drop)
    from assms(1) obtain w1 w2 where
      1: "forEachM (checkSnake all) (take j all) w = Some w1" and
      2: "checkSnake all ?b w1 = Some w2" and
      3: "forEachM (checkSnake all) (drop (Suc j) all) w2 = Some w'"
      unfolding lethalStage_def
      by (subst (asm) (2) split_j) (auto simp add: forEachM_append split: option.splits)
    have pre_j: "take j all = take i all @ ?a # drop (Suc i) (take j all)"
      using id_take_nth_drop[of i "take j all"] assms(3,4) by simp
    have "forEachM (checkSnake all) (take i all @ ?a # drop (Suc i) (take j all)) w = Some w1"
      using 1 pre_j by simp
    from checkSnakes_first_dies[OF this not_before[OF i] b_pre b_in ab assms(5,6,7,8,9,10)]
    have dead_a: "isDead (heap w1 ?a)" .
    have hb: "heap w1 ?b = heap w ?b"
      by (rule checkSnakes_untouched[OF 1 not_before[OF assms(4)]])
    have pairs: "forEachM (checkPair ?b (Some hj)) all w1 = Some w2"
      using 2 assms(6,8) by (simp add: checkSnake_def Let_def body0_def hb)
    have "\<forall>c \<in> set all. isDead (heap w1 c)
            \<or> segLoop (Some hj) (body (heap w1 c)) (if ?b = c then 10 else 0) = Some False"
    proof
      fix c assume c: "c \<in> set all"
      show "isDead (heap w1 c)
            \<or> segLoop (Some hj) (body (heap w1 c)) (if ?b = c then 10 else 0) = Some False"
      proof (cases "c = ?a")
        case True
        then show ?thesis using dead_a by simp
      next
        case False
        with clear c have "isDead (heap w c)
              \<or> segLoop (Some hj) (body (heap w c)) (if ?b = c then 10 else 0) = Some False"
          by blast
        then show ?thesis using checkSnakes_bodies[OF 1, of c] by auto
      qed
    qed
    from checkPairs_no_hit[OF pairs this] have "w2 = w1" .
    then have "heap w2 ?b = heap w ?b" by (simp add: hb)
    moreover have "?b \<notin> set (drop (Suc j) all)"
      using assms(2,4) split_j by (metis distinct.simps(2) distinct_append)
    ultimately have "heap w' ?b = heap w ?b"
      using checkSnakes_untouched[OF 3] by simp
    then show "\<not> isDead (heap w' ?b)" using assms(6) by simp
  qed
qed

theorem coincident_heads_first_dies_witness:
  "lethalStage [0, 1, 2] trioWorld = Some (killSnake 0 trioWorld)
   \<and> \<not> isDead (heap trioWorld 0) \<and> \<not> isDead (heap trioWorld 1)
   \<and> body0 (heap trioWorld 0) = Some \<lparr>px = 0, py = 0\<rparr>
   \<and> body0 (heap trioWorld 1) = Some \<lparr>px = 0, py = 0\<rparr>
   \<and> segLoop (Some \<lparr>px = 0, py = 0\<rparr>) (body (heap trioWorld 1)) 10 = Some False
   \<and> \<not> isDead (heap trioWorld 2)
   \<and> segLoop (Some \<lparr>px = 0, py = 0\<rparr>) (body (heap trioWorld 2)) 0 = Some False
   \<and> isDead (heap (killSnake 0 trioWorld) 0)
   \<and> \<not> isDead (heap (killSnake 0 trioWorld) 1)"
proof -
  let ?all = "[0, 1, 2] :: nat list"
  let ?h = "\<lparr>px = 0, py = 0\<rparr> :: point"
  have a: "\<not> isDead (heap trioWorld (?all ! 0))" "\<not> isDead (heap trioWorld (?all ! 1))"
    by (simp_all add: trioWorld_fields exampleSnake_fields)
  have b: "body (heap trioWorld (?all ! 0)) = ?h # tl (body (exampleSnake ''You'' 0 0 0 False))"
    "body (heap trioWorld (?all ! 1)) = ?h # tl (body (exampleSnake ''Bot 1'' 0 0 0 True))"
    using exampleSnake_body[of "''You''" 0 0 0 False] exampleSnake_body[of "''Bot 1''" 0 0 0 True]
    by (simp_all add: trioWorld_fields)
  have own: "segLoop (Some ?h) (body (heap trioWorld 1)) 10 = Some False"
    by (simp add: trioWorld_fields exampleSnake_self)
  have other: "segLoop (Some ?h) (body (heap trioWorld 2)) 0 = Some False"
    by (simp add: trioWorld_fields exampleSnake_segLoop)
  have clear: "\<forall>c \<in> set ?all. c \<noteq> ?all ! 0 \<longrightarrow>
              isDead (heap trioWorld c)
              \<or> segLoop (Some ?h) (body (heap trioWorld c)) (if ?all ! 1 = c then 10 else 0) = Some False"
    using own other by simp
  have "isDead (heap (killSnake 0 trioWorld) (?all ! 0))
       \<and> ((\<forall>c \<in> set ?all. c \<noteq> ?all ! 0 \<longrightarrow>
              isDead (heap trioWorld c)
              \<or> segLoop (Some ?h) (body (heap trioWorld c)) (if ?all ! 1 = c then 10 else 0) = Some False)
            \<longrightarrow> \<not> isDead (heap (killSnake 0 trioWorld) (?all ! 1)))"
    by (rule coincident_heads_first_dies[OF lethalStage_trioWorld _ _ _ a b]) simp_all
  with clear have "isDead (heap (killSnake 0 trioWorld) (?all ! 0))"
    "\<not> isDead (heap (killSnake 0 trioWorld) (?all ! 1))"
    by blast+
  then show ?thesis
    using a own other lethalStage_trioWorld
    by (simp add: trioWorld_fields exampleSnake_body0 exampleSnake_fields)
qed


section \<open>A head that touches two snakes\<close>

lemma lethalStage_cross:
  assumes "heap w 0 = exampleSnake ''You'' 0 0 0 False"
    "heap w (Suc 0) = exampleSnake ''Bot 1'' 55 0 0 True"
    "heap w 2 = exampleSnake ''Bot 2'' 30 19.5 0 True"
  shows "lethalStage [0, 1, 2] w = Some (killSnake 0 (killSnake 0 w))"
proof -
  let ?W2 = "killSnake 0 (killSnake 0 w)"
  have first: "checkSnake [0, 1, 2] 0 w = Some ?W2"
    by (simp add: checkSnake_def checkPair_def Let_def assms exampleSnake_fields
        exampleSnake_body0 exampleSnake_self exampleSnake_segLoop)
  have second: "checkSnake [0, 1, 2] 1 ?W2 = Some ?W2"
    by (simp add: checkSnake_def checkPair_def Let_def assms exampleSnake_fields
        exampleSnake_body0 exampleSnake_self exampleSnake_segLoop)
  have third: "checkSnake [0, 1, 2] 2 ?W2 = Some ?W2"
    by (simp add: checkSnake_def checkPair_def Let_def assms exampleSnake_fields
        exampleSnake_body0 exampleSnake_self exampleSnake_segLoop)
  show ?thesis
    by (simp only: lethalStage_def forEachM.simps first second third option.case)
qed

lemma snake_idle: "angle s = 0 \<Longrightarrow> \<not> isBoosting s \<Longrightarrow> s\<lparr>angle := 0, isBoosting := False\<rparr> = s"
  by (cases s) simp

lemma snake_calm: "\<not> isBoosting s \<Longrightarrow> s\<lparr>isBoosting := False\<rparr> = s"
  by (cases s) simp

lemma steerPlayer_idle:
  assumes "angle (heap w p) = 0" "\<not> isBoosting (heap w p)"
  shows "steerPlayer exampleInput p w = w"
proof -
  have "steerPlayer exampleInput p w
        = w\<lparr>heap := (heap w)(p := (heap w p)\<lparr>angle := 0, isBoosting := False\<rparr>)\<rparr>"
    using assms(1)
    by (simp add: steerPlayer_def Let_def exampleInput_target angleDiff_zero modify_def)
       (simp add: exampleInput_def)
  then show ?thesis by (simp add: snake_idle[OF assms])
qed

lemma updateBot_calm:
  assumes "\<not> isDead (heap w a)" "\<not> rnd w (rix w) < 0.05" "body (heap w a) = h # rest"
    "\<bar>px h\<bar> \<le> 1800" "\<bar>py h\<bar> \<le> 1800" "slength (heap w a) \<le> 20" "\<not> isBoosting (heap w a)"
  shows "updateBot a w = Some (w\<lparr>rix := Suc (rix w)\<rparr>)"
proof -
  have w1: "wander a w = w\<lparr>rix := Suc (rix w)\<rparr>"
    using assms(2) by (simp add: wander_def Let_def split_def)
  have w2: "avoidBorders a h (w\<lparr>rix := Suc (rix w)\<rparr>) = w\<lparr>rix := Suc (rix w)\<rparr>"
    using assms(4,5) by (simp add: avoidBorders_def Let_def)
  have w3: "randomBoost a (w\<lparr>rix := Suc (rix w)\<rparr>) = w\<lparr>rix := Suc (rix w)\<rparr>"
    using assms(6,7) by (simp add: randomBoost_def Let_def modify_def snake_calm)
  show ?thesis
    using assms(1,3) by (simp add: updateBot_def Let_def w1 body0_def w2 w3)
qed

lemma moveSnake_example:
  assumes "heap w a = exampleSnake n x y 0 b" "\<bar>x + 5\<bar> \<le> 2000" "\<bar>y\<bar> \<le> 2000"
  shows "moveSnake a w = Some (w\<lparr>heap := (heap w)(a := exampleSnake n (x + 5) y 0 b)\<rparr>)"
proof -
  have new: "movePoint \<lparr>px = x, py = y\<rparr> (angle (heap w a)) (speedOf (heap w a))
             = \<lparr>px = x + 5, py = y\<rparr>"
    by (simp add: assms(1) exampleSnake_fields speedOf_def movePoint_def)
  have oob: "\<not> outOfBounds \<lparr>px = x + 5, py = y\<rparr>"
    using assms(2,3) by (simp add: outOfBounds_def)
  have "moveSnake a w =
           Some (modify a (\<lambda>s. s\<lparr>body := take (nat \<lfloor>slength (heap w a)\<rfloor>)
                    (movePoint \<lparr>px = x, py = y\<rparr> (angle (heap w a)) (speedOf (heap w a))
                       # \<lparr>px = x, py = y\<rparr> # tl (body (exampleSnake n x y 0 b)))\<rparr>) w)"
    by (rule moveSnake_plain)
       (simp_all add: assms(1) exampleSnake_fields exampleSnake_body[symmetric]
          oob speedOf_def movePoint_def)
  also have "\<dots> = Some (w\<lparr>heap := (heap w)(a := exampleSnake n (x + 5) y 0 b)\<rparr>)"
    by (simp add: new modify_def assms(1))
       (simp add: exampleSnake_def speedOf_def movePoint_def)
  finally show ?thesis .
qed

lemma eatSnake_nofood:
  assumes "\<not> isDead (heap w a)" "foodRef w = []" "\<not> rnd w (rix w) < 0.5"
  shows "eatSnake p a w = Some (w\<lparr>rix := Suc (rix w)\<rparr>)"
  using assms by (simp add: eatSnake_def Let_def respawnFood_def split_def)


lemma crossingWorld_fields:
  "playerRef crossingWorld = Some 0" "botsRef crossingWorld = [1, 2]"
  "foodRef crossingWorld = []" "gameOverLog crossingWorld = []" "scoreRef crossingWorld = 0"
  "rnd crossingWorld = (\<lambda>_. 0.9)" "rix crossingWorld = 0"
  "heap crossingWorld 0 = exampleSnake ''You'' (- 5) 0 0 False"
  "heap crossingWorld (Suc 0) = exampleSnake ''Bot 1'' 50 0 0 True"
  "heap crossingWorld 2 = exampleSnake ''Bot 2'' 25 19.5 0 True"
  by (simp_all add: crossingWorld_def exampleWorld_def)

lemma publishLeaderboard_gameOverLog [simp]:
  "gameOverLog (publishLeaderboard all w) = gameOverLog w"
  by (simp add: publishLeaderboard_def Let_def split_def)

lemma update_crossingWorld:
  "\<exists>w'. update exampleInput crossingWorld = Some w' \<and> gameOverLog w' = [0, 0]"
proof -
  let ?W = crossingWorld
  let ?W1 = "?W\<lparr>rix := 1\<rparr>"
  let ?W2 = "?W\<lparr>rix := 2\<rparr>"
  let ?H1 = "(heap ?W)(0 := exampleSnake ''You'' 0 0 0 False)"
  let ?H2 = "?H1(1 := exampleSnake ''Bot 1'' 55 0 0 True)"
  let ?H3 = "?H2(2 := exampleSnake ''Bot 2'' 30 19.5 0 True)"
  let ?M1 = "?W\<lparr>heap := ?H1, rix := 2\<rparr>"
  let ?M2 = "?W\<lparr>heap := ?H2, rix := 2\<rparr>"
  let ?M3 = "?W\<lparr>heap := ?H3, rix := 2\<rparr>"
  let ?E1 = "?W\<lparr>heap := ?H3, rix := 3\<rparr>"
  let ?E2 = "?W\<lparr>heap := ?H3, rix := 4\<rparr>"
  let ?E3 = "?W\<lparr>heap := ?H3, rix := 5\<rparr>"
  let ?L = "killSnake 0 (killSnake 0 ?E3)"
  let ?P = "?L\<lparr>particlesRef := updateParticles (particlesRef ?L)\<rparr>"
  have st: "steerPlayer exampleInput 0 ?W = ?W"
    by (rule steerPlayer_idle) (simp_all add: crossingWorld_fields exampleSnake_fields)
  have u1: "updateBot 1 ?W = Some ?W1"
    using updateBot_calm[of ?W 1 "\<lparr>px = 50, py = 0\<rparr>" "tl (body (exampleSnake ''Bot 1'' 50 0 0 True))"]
      exampleSnake_body[of "''Bot 1''" 50 0 0 True]
    by (simp add: crossingWorld_fields exampleSnake_fields)
  have u2: "updateBot 2 ?W1 = Some ?W2"
    using updateBot_calm[of ?W1 2 "\<lparr>px = 25, py = 19.5\<rparr>" "tl (body (exampleSnake ''Bot 2'' 25 19.5 0 True))"]
      exampleSnake_body[of "''Bot 2''" 25 "19.5" 0 True]
    by (simp add: crossingWorld_fields exampleSnake_fields)
  have s: "steerStage exampleInput 0 ?W = Some ?W2"
    by (simp only: steerStage_def Let_def st crossingWorld_fields forEachM.simps u1 u2 option.case)
  have m1: "moveSnake 0 ?W2 = Some ?M1"
    using moveSnake_example[of ?W2 0 "''You''" "- 5" 0 False]
    by (simp add: crossingWorld_fields)
  have m2: "moveSnake 1 ?M1 = Some ?M2"
    using moveSnake_example[of ?M1 1 "''Bot 1''" 50 0 True]
    by (simp add: crossingWorld_fields)
  have m3: "moveSnake 2 ?M2 = Some ?M3"
    using moveSnake_example[of ?M2 2 "''Bot 2''" 25 "19.5" True]
    by (simp add: crossingWorld_fields)
  have e1: "eatSnake 0 0 ?M3 = Some ?E1"
    using eatSnake_nofood[of ?M3 0 0] by (simp add: crossingWorld_fields exampleSnake_fields)
  have e2: "eatSnake 0 1 ?E1 = Some ?E2"
    using eatSnake_nofood[of ?E1 1 0] by (simp add: crossingWorld_fields exampleSnake_fields)
  have e3: "eatSnake 0 2 ?E2 = Some ?E3"
    using eatSnake_nofood[of ?E2 2 0] by (simp add: crossingWorld_fields exampleSnake_fields)
  have l: "lethalStage [0, 1, 2] ?E3 = Some ?L"
    by (rule lethalStage_cross) simp_all
  have c: "updateCamera 0 ?P = Some ?P"
    by (simp add: updateCamera_def)
  have b2: "botsRef ?W2 = [1, 2]" by (simp add: crossingWorld_fields)
  have a: "afterSteering exampleInput 0 ?W2 = Some (publishLeaderboard [0, 1, 2] ?P)"
    by (simp only: afterSteering_def Let_def b2 forEachM.simps m1 m2 m3 e1 e2 e3 l c
        option.case bind.bind_lunit)
  have u: "update exampleInput ?W = Some (publishLeaderboard [0, 1, 2] ?P)"
    by (simp add: update_def crossingWorld_fields exampleSnake_fields s a)
  have g: "gameOverLog (publishLeaderboard [0, 1, 2] ?P) = [0, 0]"
    by (simp add: killSnake_logs crossingWorld_fields exampleSnake_fields)
  from u g show ?thesis by blast
qed

text \<open>
  C2 fails on the code. The \<^verbatim>\<open>return\<close> after \<^verbatim>\<open>killSnake(snakeA)\<close>, commented
  \<^verbatim>\<open>// Snake A died\<close>, leaves only the callback of the inner \<^verbatim>\<open>forEach\<close>, and the inner
  callback does not test \<^verbatim>\<open>snakeA.isDead\<close>: the checks of \<open>snakeA\<close> go on against the
  remaining snakes. In \<open>crossingWorld\<close> one tick puts the player's head within 20 units of
  a sampled segment of each of the two bots; \<open>killSnake\<close> runs twice for the player within
  that tick and the session-end event is pushed twice.
\<close>

theorem player_killed_twice:
  "gameOverLog crossingWorld = []
   \<and> update exampleInput crossingWorld \<noteq> None
   \<and> gameOverLog (the (update exampleInput crossingWorld)) = [0, 0]"
  using update_crossingWorld by (auto simp add: crossingWorld_fields)

end
